theory Spec2Isabelle
  imports Complex_Main "HOL-Library.Word" "HOL-Library.Signed_Division"
begin

section \<open>QUIC loss detection and RTT estimation (iocore/net/quic/QUICLossDetector.cc)\<close>

text \<open>
  A shallow embedding of \<^verbatim>\<open>QUICLossDetector\<close> and \<^verbatim>\<open>QUICRTTMeasure\<close>.
  Member variables become record fields (without the leading underscore), member
  functions become functions that take the object and return the updated object.

  \<^item> \<^verbatim>\<open>ink_hrtime\<close> is \<^verbatim>\<open>int64_t\<close> nanoseconds. Signed overflow is undefined in
    C++, so the model computes on \<open>int\<close>; \<^verbatim>\<open>/\<close> truncates towards zero (\<open>sdiv\<close>).
  \<^item> \<^verbatim>\<open>QUICPacketNumber\<close> is \<^verbatim>\<open>uint64_t\<close> and the outstanding counters are
    \<^verbatim>\<open>std::atomic<uint32_t>\<close>: both are words, and their arithmetic wraps.
  \<^item> \<^verbatim>\<open>Thread::get_hrtime()\<close> is the thread's cached clock; an operation reads one
    value, the argument \<open>now\<close>.
\<close>

type_synonym ink_hrtime = int
type_synonym QUICPacketNumber = "64 word"

subsection \<open>QUICRTTMeasure\<close>

record QUICRTTMeasure =
  k_granularity :: ink_hrtime
  k_initial_rtt :: ink_hrtime
  max_ack_delay :: ink_hrtime
  crypto_count :: "32 word"
  pto_count :: "32 word"
  latest_rtt :: ink_hrtime
  smoothed_rtt :: ink_hrtime
  rttvar :: ink_hrtime
  min_rtt :: ink_hrtime

text \<open>
  The smoothing expressions of \<^verbatim>\<open>update_rtt\<close> are evaluated in \<^verbatim>\<open>double\<close>, IEEE 754
  binary64: a significand of 53 bits, every conversion from \<^verbatim>\<open>ink_hrtime\<close>, product
  and sum rounded to the nearest representable value, ties to the even significand. A
  finite \<^verbatim>\<open>double\<close> is the rational it denotes. \<open>binade x\<close> is the exponent of the
  leading bit of \<open>x\<close>, so the representable values around \<open>x\<close> are the multiples of
  \<open>2 powi (binade x - 52)\<close>. The exponent range of binary64 is not modelled: the values
  here are \<^verbatim>\<open>ink_hrtime\<close> values and their products with 3/4, 1/4, 7/8 and 1/8, far from
  overflow and from the subnormal numbers. Each operation is rounded by itself (no fused
  multiply-add).
\<close>

function bit_length :: "int \<Rightarrow> int" where
  "bit_length n = (if n \<le> 0 then 0 else 1 + bit_length (n div 2))"
  by pat_completeness auto
termination by (relation "measure nat") auto

declare bit_length.simps [simp del]

definition binade :: "rat \<Rightarrow> int" where
  "binade x = (if 1 \<le> \<bar>x\<bar> then bit_length \<lfloor>\<bar>x\<bar>\<rfloor> - 1
               else - bit_length (\<lceil>1 / \<bar>x\<bar>\<rceil> - 1))"

definition round_to_even :: "rat \<Rightarrow> int" where
  "round_to_even q =
     (let f = \<lfloor>q\<rfloor>; r = q - of_int f
      in if r < 1 / 2 then f else if 1 / 2 < r then f + 1 else if even f then f else f + 1)"

definition to_double :: "rat \<Rightarrow> rat" where
  "to_double x =
     (if x = 0 then 0
      else let ulp = 2 powi (binade x - 52) in of_int (round_to_even (x / ulp)) * ulp)"

definition double_of_hrtime :: "ink_hrtime \<Rightarrow> rat" where
  "double_of_hrtime t = to_double (of_int t)"

definition double_times :: "rat \<Rightarrow> rat \<Rightarrow> rat" where
  "double_times x y = to_double (x * y)"

definition double_plus :: "rat \<Rightarrow> rat \<Rightarrow> rat" where
  "double_plus x y = to_double (x + y)"

text \<open>
  The conversion of a \<^verbatim>\<open>double\<close> to \<^verbatim>\<open>ink_hrtime\<close> truncates towards zero. The
  constants \<^verbatim>\<open>3.0 / 4.0\<close>, \<^verbatim>\<open>1.0 / 4.0\<close>, \<^verbatim>\<open>7.0 / 8.0\<close> and \<^verbatim>\<open>1.0 / 8.0\<close> are
  representable, so the quotients are exact. \<^verbatim>\<open>ABS\<close> is taken on \<^verbatim>\<open>ink_hrtime\<close>, before
  the conversion. C++ leaves the conversion of a \<^verbatim>\<open>double\<close> outside the range of
  \<^verbatim>\<open>int64_t\<close> undefined; like the other \<^verbatim>\<open>ink_hrtime\<close> arithmetic, the model keeps the
  integer.
\<close>

definition hrtime_of_double :: "rat \<Rightarrow> ink_hrtime" where
  "hrtime_of_double x = (if 0 \<le> x then \<lfloor>x\<rfloor> else \<lceil>x\<rceil>)"

definition update_rtt :: "ink_hrtime \<Rightarrow> ink_hrtime \<Rightarrow> QUICRTTMeasure \<Rightarrow> QUICRTTMeasure" where
  "update_rtt latest ack_delay m0 =
     (let m = m0\<lparr>latest_rtt := latest\<rparr> in
      if smoothed_rtt m = 0 then
        (let m = m\<lparr>min_rtt := 0\<rparr>;
             m = m\<lparr>smoothed_rtt := latest_rtt m\<rparr>
         in m\<lparr>rttvar := latest_rtt m sdiv 2\<rparr>)
      else
        (let m = m\<lparr>min_rtt := min (min_rtt m) latest\<rparr>;
             ack_delay = min ack_delay (max_ack_delay m);
             adjusted_rtt = latest_rtt m;
             adjusted_rtt = (if adjusted_rtt > min_rtt m + ack_delay
                             then adjusted_rtt - ack_delay else adjusted_rtt);
             m = m\<lparr>rttvar := hrtime_of_double
                   (double_plus
                      (double_times (3 / 4) (double_of_hrtime (rttvar m)))
                      (double_times (1 / 4)
                         (double_of_hrtime \<bar>smoothed_rtt m - adjusted_rtt\<bar>)))\<rparr>
         in m\<lparr>smoothed_rtt := hrtime_of_double
                   (double_plus
                      (double_times (7 / 8) (double_of_hrtime (smoothed_rtt m)))
                      (double_times (1 / 8) (double_of_hrtime adjusted_rtt)))\<rparr>))"

text \<open>
  \<^verbatim>\<open>1 << count\<close> shifts the \<^verbatim>\<open>int\<close> 1 by a \<^verbatim>\<open>uint32_t\<close> count and has type \<^verbatim>\<open>int\<close>:
  it is \<open>2 ^ count\<close> up to 30 and \<^verbatim>\<open>INT_MIN\<close> at 31. From 32 on C++ leaves the shift
  undefined; the model then shifts by the count modulo 32, as the shift instructions of
  x86-64 and AArch64 do. The product with the \<^verbatim>\<open>ink_hrtime\<close> duration is taken on
  \<^verbatim>\<open>ink_hrtime\<close>.
\<close>

definition shift_left_one :: "32 word \<Rightarrow> int" where
  "shift_left_one count = sint (push_bit (unat count mod 32) (1 :: 32 word))"

definition current_pto_period :: "QUICRTTMeasure \<Rightarrow> ink_hrtime" where
  "current_pto_period m =
     (let alarm_duration = smoothed_rtt m + 4 * rttvar m + max_ack_delay m;
          alarm_duration = max alarm_duration (k_granularity m)
      in alarm_duration * shift_left_one (pto_count m))"

definition congestion_period :: "32 word \<Rightarrow> QUICRTTMeasure \<Rightarrow> ink_hrtime" where
  "congestion_period threshold m =
     (let pto = smoothed_rtt m + max (rttvar m * 4) (k_granularity m)
      in pto * uint threshold)"

definition handshake_retransmit_timeout :: "QUICRTTMeasure \<Rightarrow> ink_hrtime" where
  "handshake_retransmit_timeout m =
     (let timeout = (if smoothed_rtt m = 0 then 2 * k_initial_rtt m else 2 * smoothed_rtt m);
          timeout = max timeout (k_granularity m)
      in timeout * shift_left_one (crypto_count m))"

definition set_crypto_count :: "32 word \<Rightarrow> QUICRTTMeasure \<Rightarrow> QUICRTTMeasure" where
  "set_crypto_count count m = m\<lparr>crypto_count := count\<rparr>"

definition set_pto_count :: "32 word \<Rightarrow> QUICRTTMeasure \<Rightarrow> QUICRTTMeasure" where
  "set_pto_count count m = m\<lparr>pto_count := count\<rparr>"

definition rtt_reset :: "QUICRTTMeasure \<Rightarrow> QUICRTTMeasure" where
  "rtt_reset m = m\<lparr>crypto_count := 0, pto_count := 0, smoothed_rtt := 0, rttvar := 0,
                   min_rtt := 0, latest_rtt := 0\<rparr>"

text \<open>A run of RTT samples \<open>(latest_rtt, ack_delay)\<close>, oldest first.\<close>

fun update_rtts :: "(ink_hrtime \<times> ink_hrtime) list \<Rightarrow> QUICRTTMeasure \<Rightarrow> QUICRTTMeasure" where
  "update_rtts [] m = m"
| "update_rtts ((latest, ack_delay) # samples) m = update_rtts samples (update_rtt latest ack_delay m)"

subsection \<open>Packets, frames and the collaborators of the detector\<close>

datatype QUICPacketNumberSpace = Initial | Handshake | ApplicationData

datatype QUICPacketType =
  VERSION_NEGOTIATION | INITIAL | ZERO_RTT_PROTECTED | HANDSHAKE | RETRY | PROTECTED
  | STATELESS_RESET | UNINITIALIZED

text \<open>
  The enumerators \<^verbatim>\<open>INITIAL\<close>, \<^verbatim>\<open>ZERO_RTT\<close> and \<^verbatim>\<open>HANDSHAKE\<close> occur in several of
  the enums; those of \<^verbatim>\<open>QUICEncryptionLevel\<close> and \<^verbatim>\<open>QUICKeyPhase\<close> carry a prefix here.
\<close>

datatype QUICEncryptionLevel = LEVEL_INITIAL | LEVEL_ZERO_RTT | LEVEL_HANDSHAKE | LEVEL_ONE_RTT

datatype QUICKeyPhase = PHASE_0 | PHASE_1 | KEY_INITIAL | KEY_ZERO_RTT | KEY_HANDSHAKE

text \<open>
  A frame record of a sent packet: its id, and the generator that produced it
  (\<open>None\<close> for \<^verbatim>\<open>nullptr\<close>).
\<close>

record QUICFrameInfo =
  frame_id :: nat
  generated_by :: "nat option"

record QUICPacketInfo =
  packet_number :: QUICPacketNumber
  pn_space :: QUICPacketNumberSpace
  ptype :: QUICPacketType
  time_sent :: ink_hrtime
  ack_eliciting :: bool
  in_flight :: bool
  is_crypto_packet :: bool
  sent_bytes :: nat
  frames :: "QUICFrameInfo list"

text \<open>
  An ACK frame as the detector reads it: the largest acknowledged number, the raw delay,
  the first block and the \<open>(gap, length)\<close> blocks of its block section, and the ECN
  section (\<open>None\<close> for \<^verbatim>\<open>nullptr\<close>; three counts otherwise).
\<close>

record QUICAckFrame =
  largest_acknowledged :: QUICPacketNumber
  ack_delay :: "64 word"
  first_ack_block :: "64 word"
  ack_blocks :: "(64 word \<times> 64 word) list"
  ecn_section :: "(64 word \<times> 64 word \<times> 64 word) option"

datatype QUICFrame = ACK QUICAckFrame | OTHER_FRAME

text \<open>
  What the detector asks of the connection it belongs to (\<^verbatim>\<open>QUICContext\<close>): the
  direction of the connection and which keys are installed.
\<close>

record QUICContext =
  direction_out :: bool
  is_encryption_key_available :: "QUICKeyPhase \<Rightarrow> bool"
  is_decryption_key_available :: "QUICKeyPhase \<Rightarrow> bool"

text \<open>
  The calls the detector makes on the congestion controller, the frame generators, the
  context, the pinger and the padder are recorded, in order, in the field \<open>calls\<close>.
\<close>

datatype callback =
    CC_on_packet_sent nat
  | CC_on_packet_acked QUICPacketInfo
  | CC_on_packets_lost "(QUICPacketNumber \<times> QUICPacketInfo) list"
  | CC_process_ecn QUICPacketInfo "64 word \<times> 64 word \<times> 64 word"
  | CC_add_extra_credit
  | On_frame_acked nat nat
  | On_frame_lost nat nat
  | Trigger_PACKET_LOST QUICPacketInfo
  | Pinger_request QUICEncryptionLevel
  | Padder_request QUICEncryptionLevel

subsection \<open>The sent-packet table: \<^verbatim>\<open>std::map<QUICPacketNumber, QUICPacketInfoUPtr>\<close>\<close>

text \<open>
  An association list in ascending key order, as the map iterates. \<^verbatim>\<open>insert\<close> keeps
  the element already stored under the key.
\<close>

type_synonym sent_packet_table = "(QUICPacketNumber \<times> QUICPacketInfo) list"

fun map_insert :: "QUICPacketNumber \<Rightarrow> QUICPacketInfo \<Rightarrow> sent_packet_table \<Rightarrow> sent_packet_table" where
  "map_insert k v [] = [(k, v)]"
| "map_insert k v ((k', v') # rest) =
     (if k < k' then (k, v) # (k', v') # rest
      else if k = k' then (k', v') # rest
      else (k', v') # map_insert k v rest)"

definition map_find :: "sent_packet_table \<Rightarrow> QUICPacketNumber \<Rightarrow> QUICPacketInfo option" where
  "map_find t k = map_of t k"

definition map_erase :: "QUICPacketNumber \<Rightarrow> sent_packet_table \<Rightarrow> sent_packet_table" where
  "map_erase k t = filter (\<lambda>e. fst e \<noteq> k) t"

subsection \<open>QUICLossDetector\<close>

text \<open>
  \<^verbatim>\<open>_k_time_threshold\<close> is a floating-point factor whose type is declared outside this
  file; it is used once, in the product with \<^verbatim>\<open>max(latest_rtt, smoothed_rtt)\<close> that is
  converted back to \<^verbatim>\<open>ink_hrtime\<close>. The field \<open>k_time_threshold_times\<close> is that product
  as a function of the second factor. \<open>loss_detection_timer\<close> tells whether the
  25 ms event is scheduled (the pointer is not null).
\<close>

record QUICLossDetector =
  k_packet_threshold :: "32 word"
  k_time_threshold_times :: "ink_hrtime \<Rightarrow> ink_hrtime"
  ack_delay_exponent :: "8 word"
  loss_detection_alarm_at :: ink_hrtime
  loss_detection_timer :: bool
  ack_eliciting_outstanding :: "32 word"
  crypto_outstanding :: "32 word"
  time_of_last_sent_ack_eliciting_packet :: ink_hrtime
  time_of_last_sent_crypto_packet :: ink_hrtime
  largest_acked_packet :: "QUICPacketNumberSpace \<Rightarrow> QUICPacketNumber"
  loss_time :: "QUICPacketNumberSpace \<Rightarrow> ink_hrtime"
  sent_packets :: "QUICPacketNumberSpace \<Rightarrow> sent_packet_table"
  rtt_measure :: QUICRTTMeasure
  calls :: "callback list"

definition call :: "callback \<Rightarrow> QUICLossDetector \<Rightarrow> QUICLossDetector" where
  "call c s = s\<lparr>calls := calls s @ [c]\<rparr>"

text \<open>
  The one way an operation of the model fails: \<^verbatim>\<open>_on_ack_received\<close> keeps raw pointers
  to the descriptors it is about to acknowledge, and acknowledging one releases it. A
  descriptor listed twice is read after its release on the second visit, which C++ leaves
  undefined.
\<close>

datatype failure = Released_descriptor

text \<open>
  \<^verbatim>\<open>ink_assert\<close> is defined outside this file; outside debug builds it evaluates its
  argument and goes on, and so does the model.
\<close>

definition add_to_sent_packet_list ::
  "QUICPacketNumber \<Rightarrow> QUICPacketInfo \<Rightarrow> QUICLossDetector \<Rightarrow> QUICLossDetector" where
  "add_to_sent_packet_list pn packet_info s0 =
     (let index = pn_space packet_info;
          s = s0\<lparr>sent_packets := (sent_packets s0)(index := map_insert pn packet_info (sent_packets s0 index))\<rparr>
      in case map_find (sent_packets s index) pn of
           None \<Rightarrow> s
         | Some ite \<Rightarrow>
             (let s = (if is_crypto_packet ite
                       then s\<lparr>crypto_outstanding := crypto_outstanding s + 1\<rparr> else s)
              in if ack_eliciting ite
                 then s\<lparr>ack_eliciting_outstanding := ack_eliciting_outstanding s + 1\<rparr> else s))"

definition decrement_outstanding_counters ::
  "QUICPacketInfo option \<Rightarrow> QUICLossDetector \<Rightarrow> QUICLossDetector" where
  "decrement_outstanding_counters it s0 =
     (case it of
        None \<Rightarrow> s0
      | Some info \<Rightarrow>
          (let s = (if is_crypto_packet info
                    then s0\<lparr>crypto_outstanding := crypto_outstanding s0 - 1\<rparr> else s0)
           in if ack_eliciting info
              then s\<lparr>ack_eliciting_outstanding := ack_eliciting_outstanding s - 1\<rparr> else s))"

definition remove_from_sent_packet_list ::
  "QUICPacketNumber \<Rightarrow> QUICPacketNumberSpace \<Rightarrow> QUICLossDetector \<Rightarrow> QUICLossDetector" where
  "remove_from_sent_packet_list pn sp s0 =
     (let ite = map_find (sent_packets s0 sp) pn;
          s = decrement_outstanding_counters ite s0
      in s\<lparr>sent_packets := (sent_packets s)(sp := map_erase pn (sent_packets s sp))\<rparr>)"

definition retransmit_lost_packet :: "QUICPacketInfo \<Rightarrow> QUICLossDetector \<Rightarrow> QUICLossDetector" where
  "retransmit_lost_packet packet_info s0 =
     fold (\<lambda>frame_info s.
             case generated_by frame_info of
               None \<Rightarrow> s
             | Some reactor \<Rightarrow> call (On_frame_lost reactor (frame_id frame_info)) s)
       (frames packet_info) s0"

definition on_packet_acked :: "QUICPacketInfo \<Rightarrow> QUICLossDetector \<Rightarrow> QUICLossDetector" where
  "on_packet_acked acked_packet s0 =
     (let s = (if in_flight acked_packet then call (CC_on_packet_acked acked_packet) s0 else s0);
          s = fold (\<lambda>frame_info s.
                      case generated_by frame_info of
                        None \<Rightarrow> s
                      | Some reactor \<Rightarrow> call (On_frame_acked reactor (frame_id frame_info)) s)
                (frames acked_packet) s
      in remove_from_sent_packet_list (packet_number acked_packet) (pn_space acked_packet) s)"

definition get_earliest_loss_time :: "QUICLossDetector \<Rightarrow> ink_hrtime \<times> QUICPacketNumberSpace" where
  "get_earliest_loss_time s =
     fold (\<lambda>i (time, sp).
             if loss_time s i \<noteq> 0 \<and> (time \<noteq> 0 \<or> loss_time s i < time)
             then (loss_time s i, i) else (time, sp))
       [Handshake, ApplicationData] (loss_time s Initial, Initial)"

definition is_client_without_one_rtt_key :: "QUICContext \<Rightarrow> bool" where
  "is_client_without_one_rtt_key ctx =
     (direction_out ctx \<and>
      \<not> ((is_encryption_key_available ctx PHASE_1 \<and> is_decryption_key_available ctx PHASE_1) \<or>
         (is_encryption_key_available ctx PHASE_0 \<and> is_decryption_key_available ctx PHASE_0)))"

definition update_timer :: "ink_hrtime \<Rightarrow> QUICLossDetector \<Rightarrow> QUICLossDetector" where
  "update_timer time s0 =
     (let s = s0\<lparr>loss_detection_alarm_at := time\<rparr>
      in if \<not> loss_detection_timer s then s\<lparr>loss_detection_timer := True\<rparr> else s)"

definition set_loss_detection_timer :: "QUICContext \<Rightarrow> QUICLossDetector \<Rightarrow> QUICLossDetector" where
  "set_loss_detection_timer ctx s =
     (let alarm = fst (get_earliest_loss_time s) in
      if alarm \<noteq> 0 then update_timer alarm s
      else if crypto_outstanding s > 0 \<or> is_client_without_one_rtt_key ctx then
        update_timer (time_of_last_sent_crypto_packet s + handshake_retransmit_timeout (rtt_measure s)) s
      else if ack_eliciting_outstanding s = 0 then
        (if loss_detection_timer s
         then s\<lparr>loss_detection_alarm_at := 0, loss_detection_timer := False\<rparr> else s)
      else
        update_timer (time_of_last_sent_ack_eliciting_packet s + current_pto_period (rtt_measure s)) s)"

text \<open>
  The scan of \<^verbatim>\<open>_detect_lost_packets\<close> over the table of one space, in ascending
  packet-number order, with the \<^verbatim>\<open>break\<close> at the first key above the largest
  acknowledged number. It carries the space's \<^verbatim>\<open>_loss_time\<close> and the map
  \<^verbatim>\<open>lost_packets\<close>, whose keys arrive in ascending order.
\<close>

fun scan_sent_packets ::
  "QUICPacketNumber \<Rightarrow> ink_hrtime \<Rightarrow> QUICPacketNumber \<Rightarrow> ink_hrtime \<Rightarrow> sent_packet_table \<Rightarrow>
   ink_hrtime \<times> sent_packet_table \<Rightarrow> ink_hrtime \<times> sent_packet_table" where
  "scan_sent_packets largest lost_send_time lost_pn loss_delay [] acc = acc"
| "scan_sent_packets largest lost_send_time lost_pn loss_delay ((pn, unacked) # rest) (lt, lost_packets) =
     (if pn > largest then (lt, lost_packets)
      else if time_sent unacked < lost_send_time \<or> packet_number unacked < lost_pn then
        scan_sent_packets largest lost_send_time lost_pn loss_delay rest
          (lt, if in_flight unacked then lost_packets @ [(pn, unacked)] else lost_packets)
      else if lt = 0 then
        scan_sent_packets largest lost_send_time lost_pn loss_delay rest
          (time_sent unacked + loss_delay, lost_packets)
      else
        scan_sent_packets largest lost_send_time lost_pn loss_delay rest
          (min lt (time_sent unacked + loss_delay), lost_packets))"

definition detect_lost_packets ::
  "QUICPacketNumberSpace \<Rightarrow> ink_hrtime \<Rightarrow> QUICLossDetector \<Rightarrow> QUICLossDetector" where
  "detect_lost_packets sp now s0 =
     (let s = s0\<lparr>loss_time := (loss_time s0)(sp := 0)\<rparr>;
          loss_delay = k_time_threshold_times s
                         (max (latest_rtt (rtt_measure s)) (smoothed_rtt (rtt_measure s)));
          loss_delay = min loss_delay (k_granularity (rtt_measure s));
          lost_send_time = now - loss_delay;
          lost_pn = largest_acked_packet s sp - ucast (k_packet_threshold s);
          (lt, lost_packets) =
             scan_sent_packets (largest_acked_packet s sp) lost_send_time lost_pn loss_delay
               (sent_packets s sp) (loss_time s sp, []);
          s = s\<lparr>loss_time := (loss_time s)(sp := lt)\<rparr>
      in if lost_packets \<noteq> [] then
           fold (\<lambda>lost_packet s.
                   remove_from_sent_packet_list (fst lost_packet) sp
                     (retransmit_lost_packet (snd lost_packet)
                        (call (Trigger_PACKET_LOST (snd lost_packet)) s)))
             lost_packets (call (CC_on_packets_lost lost_packets) s)
         else s)"

definition retransmit_all_unacked_crypto_data :: "QUICLossDetector \<Rightarrow> QUICLossDetector" where
  "retransmit_all_unacked_crypto_data s0 =
     fold (\<lambda>i s.
             let lost_packets = filter (\<lambda>info. is_crypto_packet (snd info)) (sent_packets s i);
                 s = fold (\<lambda>info. retransmit_lost_packet (snd info)) lost_packets s;
                 s = call (CC_on_packets_lost lost_packets) s
             in fold (\<lambda>packet_number. remove_from_sent_packet_list packet_number i)
                  (map fst lost_packets) s)
       [Initial, Handshake, ApplicationData] s0"

definition send_packet :: "QUICEncryptionLevel \<Rightarrow> bool \<Rightarrow> QUICLossDetector \<Rightarrow> QUICLossDetector" where
  "send_packet level padded s =
     call CC_add_extra_credit
       (if padded then call (Padder_request level) s else call (Pinger_request level) s)"

definition send_one_or_two_packet :: "QUICLossDetector \<Rightarrow> QUICLossDetector" where
  "send_one_or_two_packet s = send_packet LEVEL_ONE_RTT False (send_packet LEVEL_ONE_RTT False s)"

definition send_one_handshake_packets :: "QUICLossDetector \<Rightarrow> QUICLossDetector" where
  "send_one_handshake_packets s = send_packet LEVEL_HANDSHAKE False s"

definition send_one_padded_packets :: "QUICLossDetector \<Rightarrow> QUICLossDetector" where
  "send_one_padded_packets s = send_packet LEVEL_INITIAL True s"

definition on_loss_detection_timeout ::
  "QUICContext \<Rightarrow> ink_hrtime \<Rightarrow> QUICLossDetector \<Rightarrow> QUICLossDetector" where
  "on_loss_detection_timeout ctx now s0 =
     (let (earliest, space) = get_earliest_loss_time s0;
          s =
            (if earliest \<noteq> 0 then detect_lost_packets space now s0
             else if crypto_outstanding s0 \<noteq> 0 then
               (let s = retransmit_all_unacked_crypto_data s0
                in s\<lparr>rtt_measure := set_crypto_count (crypto_count (rtt_measure s) + 1) (rtt_measure s)\<rparr>)
             else if is_client_without_one_rtt_key ctx then
               (let s = (if is_encryption_key_available ctx KEY_HANDSHAKE
                         then send_one_handshake_packets s0 else send_one_padded_packets s0)
                in s\<lparr>rtt_measure := set_crypto_count (crypto_count (rtt_measure s) + 1) (rtt_measure s)\<rparr>)
             else
               (let s = send_one_or_two_packet s0
                in s\<lparr>rtt_measure := set_pto_count (pto_count (rtt_measure s) + 1) (rtt_measure s)\<rparr>))
      in set_loss_detection_timer ctx s)"

datatype event = EVENT_INTERVAL | QUIC_EVENT_LD_SHUTDOWN | OTHER_EVENT

definition event_handler ::
  "QUICContext \<Rightarrow> ink_hrtime \<Rightarrow> event \<Rightarrow> QUICLossDetector \<Rightarrow> QUICLossDetector" where
  "event_handler ctx now ev s =
     (case ev of
        EVENT_INTERVAL \<Rightarrow>
          (if loss_detection_alarm_at s \<le> now
           then on_loss_detection_timeout ctx now (s\<lparr>loss_detection_alarm_at := 0\<rparr>)
           else s)
      | QUIC_EVENT_LD_SHUTDOWN \<Rightarrow>
          (if loss_detection_timer s then s\<lparr>loss_detection_timer := False\<rparr> else s)
      | OTHER_EVENT \<Rightarrow> s)"

subsection \<open>ACK processing\<close>

text \<open>
  Modelled from the spec: \<^verbatim>\<open>QUICAckFrame::PacketNumberRange\<close> is declared outside this
  file. A range is the pair \<open>(first, last)\<close> the constructor receives, here always
  \<open>(hi, lo)\<close>, and \<^verbatim>\<open>contains\<close> is inclusive at both ends (spec 4.2: a set of
  inclusive packet-number ranges, each \<open>[hi, lo]\<close>).
\<close>

type_synonym PacketNumberRange = "QUICPacketNumber \<times> QUICPacketNumber"

definition range_contains :: "PacketNumberRange \<Rightarrow> QUICPacketNumber \<Rightarrow> bool" where
  "range_contains rng x = (snd rng \<le> x \<and> x \<le> fst rng)"

text \<open>
  \<^verbatim>\<open>std::set<PacketNumberRange>\<close> with the ordering of the range type, which is declared
  outside this file and is the parameter \<open>lt\<close>: the elements in ascending order, and an
  element equivalent to one already stored is not inserted.
\<close>

fun set_insert :: "('a \<Rightarrow> 'a \<Rightarrow> bool) \<Rightarrow> 'a \<Rightarrow> 'a list \<Rightarrow> 'a list" where
  "set_insert lt x [] = [x]"
| "set_insert lt x (y # ys) =
     (if lt x y then x # y # ys
      else if lt y x then y # set_insert lt x ys
      else y # ys)"

text \<open>
  The result lists the descriptors by their table entries; the pointer to a descriptor is
  live as long as its key is in the table.
\<close>

definition determine_newly_acked_packets ::
  "(PacketNumberRange \<Rightarrow> PacketNumberRange \<Rightarrow> bool) \<Rightarrow> QUICAckFrame \<Rightarrow> sent_packet_table \<Rightarrow>
   sent_packet_table" where
  "determine_newly_acked_packets lt ack_frame table =
     (let x = largest_acknowledged ack_frame;
          numbers = set_insert lt (x, x - first_ack_block ack_frame) [];
          x = x - (first_ack_block ack_frame + 1);
          (x, numbers) =
             fold (\<lambda>block (x, numbers).
                     let x = x - (fst block + 1);
                         numbers = set_insert lt (x, x - snd block) numbers;
                         x = x - (snd block + 1)
                     in (x, numbers))
               (ack_blocks ack_frame) (x, numbers)
      in concat (map (\<lambda>rng. filter (\<lambda>ite. range_contains rng (fst ite)) (rev table)) numbers))"

definition include_ack_eliciting :: "sent_packet_table \<Rightarrow> bool" where
  "include_ack_eliciting acked_packets = list_ex (\<lambda>packet. ack_eliciting (snd packet)) acked_packets"

text \<open>
  \<^verbatim>\<open>HRTIME_USECONDS\<close> (defined outside this file) multiplies by 1000; the shifted delay
  is \<^verbatim>\<open>uint64_t\<close>, so the product wraps before it is read as \<^verbatim>\<open>ink_hrtime\<close>. The
  shift by \<^verbatim>\<open>_ack_delay_exponent\<close> is \<open>push_bit\<close>; C++ leaves a shift by 64 or more
  undefined.
\<close>

definition HRTIME_USECONDS :: "64 word \<Rightarrow> ink_hrtime" where
  "HRTIME_USECONDS x = sint (x * 1000)"

fun on_packets_acked ::
  "QUICPacketNumberSpace \<Rightarrow> sent_packet_table \<Rightarrow> QUICLossDetector \<Rightarrow> failure + QUICLossDetector" where
  "on_packets_acked index [] s = Inr s"
| "on_packets_acked index (info # rest) s =
     (case map_find (sent_packets s index) (fst info) of
        None \<Rightarrow> Inl Released_descriptor
      | Some acked_packet \<Rightarrow> on_packets_acked index rest (on_packet_acked acked_packet s))"

definition on_ack_received ::
  "(PacketNumberRange \<Rightarrow> PacketNumberRange \<Rightarrow> bool) \<Rightarrow> QUICContext \<Rightarrow> ink_hrtime \<Rightarrow>
   QUICAckFrame \<Rightarrow> QUICPacketNumberSpace \<Rightarrow> QUICLossDetector \<Rightarrow> failure + QUICLossDetector" where
  "on_ack_received lt ctx now ack_frame index s0 =
     (let s = s0\<lparr>largest_acked_packet := (largest_acked_packet s0)
                  (index := max (largest_acked_packet s0 index) (largest_acknowledged ack_frame))\<rparr>;
          newly_acked_packets = determine_newly_acked_packets lt ack_frame (sent_packets s index)
      in if newly_acked_packets = [] then Inr s
         else
           (let largest_it = map_find (sent_packets s index) (largest_acknowledged ack_frame);
                s = (case largest_it of
                       None \<Rightarrow> s
                     | Some p \<Rightarrow>
                         if ack_eliciting p \<or> include_ack_eliciting newly_acked_packets then
                           (let latest = now - time_sent p;
                                delay = HRTIME_USECONDS
                                          (push_bit (unat (ack_delay_exponent s)) (ack_delay ack_frame))
                            in s\<lparr>rtt_measure := update_rtt latest delay (rtt_measure s)\<rparr>)
                         else s);
                s = (case (ecn_section ack_frame, largest_it) of
                       (Some ecn, Some p) \<Rightarrow> call (CC_process_ecn p ecn) s
                     | _ \<Rightarrow> s)
            in case on_packets_acked index newly_acked_packets s of
                 Inl e \<Rightarrow> Inl e
               | Inr s \<Rightarrow>
                   (let s = detect_lost_packets index now s;
                        s = s\<lparr>rtt_measure := set_crypto_count 0 (rtt_measure s)\<rparr>;
                        s = s\<lparr>rtt_measure := set_pto_count 0 (rtt_measure s)\<rparr>
                    in Inr (set_loss_detection_timer ctx s))))"

subsection \<open>The public operations\<close>

text \<open>
  \<^verbatim>\<open>handle_frame\<close> returns the connection error together with the detector. The space
  \<open>sp\<close> is \<^verbatim>\<open>QUICTypeUtil::pn_space(level)\<close>, a function defined outside this file.
\<close>

datatype QUICConnectionError = Connection_error

definition handle_frame ::
  "(PacketNumberRange \<Rightarrow> PacketNumberRange \<Rightarrow> bool) \<Rightarrow> QUICContext \<Rightarrow> ink_hrtime \<Rightarrow>
   QUICPacketNumberSpace \<Rightarrow> QUICFrame \<Rightarrow> QUICLossDetector \<Rightarrow>
   failure + (QUICConnectionError option \<times> QUICLossDetector)" where
  "handle_frame lt ctx now sp frame s =
     (let err = None in
      case frame of
        ACK ack_frame \<Rightarrow>
          (case on_ack_received lt ctx now ack_frame sp s of
             Inl e \<Rightarrow> Inl e
           | Inr s' \<Rightarrow> Inr (err, s'))
      | OTHER_FRAME \<Rightarrow> Inr (err, s))"

definition largest_acked_packet_number :: "QUICPacketNumberSpace \<Rightarrow> QUICLossDetector \<Rightarrow> QUICPacketNumber" where
  "largest_acked_packet_number sp s = largest_acked_packet s sp"

definition on_packet_sent ::
  "QUICContext \<Rightarrow> QUICPacketInfo \<Rightarrow> bool \<Rightarrow> QUICLossDetector \<Rightarrow> QUICLossDetector" where
  "on_packet_sent ctx packet_info in_flight_arg s0 =
     (if ptype packet_info = VERSION_NEGOTIATION then s0
      else
        (let now = time_sent packet_info;
             s = add_to_sent_packet_list (packet_number packet_info) packet_info s0
         in if in_flight_arg then
              (let s = (if is_crypto_packet packet_info
                        then s\<lparr>time_of_last_sent_crypto_packet := now\<rparr> else s);
                   s = (if ack_eliciting packet_info
                        then s\<lparr>time_of_last_sent_ack_eliciting_packet := now\<rparr> else s);
                   s = call (CC_on_packet_sent (sent_bytes packet_info)) s
               in set_loss_detection_timer ctx s)
            else s))"

definition reset :: "QUICLossDetector \<Rightarrow> QUICLossDetector" where
  "reset s =
     s\<lparr>loss_detection_timer := False,
       ack_eliciting_outstanding := 0,
       crypto_outstanding := 0,
       time_of_last_sent_ack_eliciting_packet := 0,
       time_of_last_sent_crypto_packet := 0,
       largest_acked_packet := (\<lambda>i. 0),
       loss_time := (\<lambda>i. 0),
       sent_packets := (\<lambda>i. []),
       rtt_measure := rtt_reset (rtt_measure s)\<rparr>"

definition update_ack_delay_exponent :: "8 word \<Rightarrow> QUICLossDetector \<Rightarrow> QUICLossDetector" where
  "update_ack_delay_exponent e s = s\<lparr>ack_delay_exponent := e\<rparr>"

subsection \<open>Traces of operations\<close>

text \<open>
  The operations a connection performs on its detector. Each is performed under the
  loss-detection mutex, at a clock value and with the connection in some state of its
  keys; the points between two operations are the observable points of a trace.
\<close>

datatype operation =
    On_packet_sent QUICPacketInfo bool
  | Handle_frame QUICPacketNumberSpace QUICFrame
  | Event_handler event
  | Reset
  | Update_ack_delay_exponent "8 word"

type_synonym invocation = "QUICContext \<times> ink_hrtime \<times> operation"

fun step ::
  "(PacketNumberRange \<Rightarrow> PacketNumberRange \<Rightarrow> bool) \<Rightarrow> invocation \<Rightarrow> QUICLossDetector \<Rightarrow>
   failure + QUICLossDetector" where
  "step lt (ctx, now, On_packet_sent packet_info in_flight_arg) s =
     Inr (on_packet_sent ctx packet_info in_flight_arg s)"
| "step lt (ctx, now, Handle_frame sp frame) s =
     (case handle_frame lt ctx now sp frame s of Inl e \<Rightarrow> Inl e | Inr r \<Rightarrow> Inr (snd r))"
| "step lt (ctx, now, Event_handler ev) s = Inr (event_handler ctx now ev s)"
| "step lt (ctx, now, Reset) s = Inr (reset s)"
| "step lt (ctx, now, Update_ack_delay_exponent e) s = Inr (update_ack_delay_exponent e s)"

fun run ::
  "(PacketNumberRange \<Rightarrow> PacketNumberRange \<Rightarrow> bool) \<Rightarrow> invocation list \<Rightarrow> QUICLossDetector \<Rightarrow>
   failure + QUICLossDetector" where
  "run lt [] s = Inr s"
| "run lt (i # rest) s = (case step lt i s of Inl e \<Rightarrow> Inl e | Inr s' \<Rightarrow> run lt rest s')"

text \<open>
  The caller's contract on \<^verbatim>\<open>on_packet_sent\<close> (spec 5, ordering guarantees): within a
  packet-number space, descriptors are added in strictly increasing packet-number order.
  \<open>last_sent\<close> is the number of the last descriptor added to each space since the tables
  were last cleared. Version Negotiation packets are never added.
\<close>

fun strictly_increasing ::
  "(QUICPacketNumberSpace \<Rightarrow> QUICPacketNumber option) \<Rightarrow> invocation list \<Rightarrow> bool" where
  "strictly_increasing last_sent [] = True"
| "strictly_increasing last_sent ((ctx, now, On_packet_sent packet_info in_flight_arg) # rest) =
     (if ptype packet_info = VERSION_NEGOTIATION then strictly_increasing last_sent rest
      else
        (case last_sent (pn_space packet_info) of
           None \<Rightarrow> True
         | Some previous \<Rightarrow> previous < packet_number packet_info) \<and>
        strictly_increasing
          (last_sent(pn_space packet_info := Some (packet_number packet_info))) rest)"
| "strictly_increasing last_sent ((ctx, now, Reset) # rest) = strictly_increasing (\<lambda>sp. None) rest"
| "strictly_increasing last_sent (i # rest) = strictly_increasing last_sent rest"

text \<open>The tracked descriptors with a flag set, over the three spaces.\<close>

definition tracked :: "(QUICPacketInfo \<Rightarrow> bool) \<Rightarrow> QUICLossDetector \<Rightarrow> nat" where
  "tracked flag s =
     (\<Sum>sp \<leftarrow> [Initial, Handshake, ApplicationData].
        length (filter (\<lambda>e. flag (snd e)) (sent_packets s sp)))"

definition counters_agree :: "QUICLossDetector \<Rightarrow> bool" where
  "counters_agree s \<longleftrightarrow>
     ack_eliciting_outstanding s = of_nat (tracked ack_eliciting s) \<and>
     crypto_outstanding s = of_nat (tracked is_crypto_packet s)"

text \<open>
  The invariant behind the counters: they agree with the tables, every table is in
  strictly ascending key order, and no key exceeds the last number sent in its space.
\<close>

definition well_tracked ::
  "(QUICPacketNumberSpace \<Rightarrow> QUICPacketNumber option) \<Rightarrow> QUICLossDetector \<Rightarrow> bool" where
  "well_tracked last_sent s \<longleftrightarrow>
     counters_agree s \<and>
     (\<forall>sp. sorted_wrt (<) (map fst (sent_packets s sp)) \<and>
           (\<forall>k \<in> fst ` set (sent_packets s sp). \<exists>p. last_sent sp = Some p \<and> k \<le> p))"

subsection \<open>A detector, a connection and packets for the examples\<close>

text \<open>
  A server-side connection with all keys installed, and a detector as its constructor
  leaves it: packet threshold 3, time threshold 9/8, granularity 1 ms, initial RTT 100 ms,
  maximum ACK delay 25 ms. The ranges of an ACK frame are ordered by their first number.
\<close>

definition server_context :: QUICContext where
  "server_context =
     \<lparr>direction_out = False,
      is_encryption_key_available = (\<lambda>phase. True),
      is_decryption_key_available = (\<lambda>phase. True)\<rparr>"

definition new_rtt_measure :: QUICRTTMeasure where
  "new_rtt_measure =
     \<lparr>k_granularity = 1000000, k_initial_rtt = 100000000, max_ack_delay = 25000000,
      crypto_count = 0, pto_count = 0, latest_rtt = 0, smoothed_rtt = 0, rttvar = 0,
      min_rtt = 0\<rparr>"

definition new_detector :: QUICLossDetector where
  "new_detector =
     reset
       \<lparr>k_packet_threshold = 3,
        k_time_threshold_times = (\<lambda>t. (9 * t) sdiv 8),
        ack_delay_exponent = 3,
        loss_detection_alarm_at = 0,
        loss_detection_timer = False,
        ack_eliciting_outstanding = 0,
        crypto_outstanding = 0,
        time_of_last_sent_ack_eliciting_packet = 0,
        time_of_last_sent_crypto_packet = 0,
        largest_acked_packet = (\<lambda>i. 0),
        loss_time = (\<lambda>i. 0),
        sent_packets = (\<lambda>i. []),
        rtt_measure = new_rtt_measure,
        calls = []\<rparr>"

definition first_less :: "PacketNumberRange \<Rightarrow> PacketNumberRange \<Rightarrow> bool" where
  "first_less a b \<longleftrightarrow> fst a < fst b"

text \<open>An ack-eliciting 1-RTT packet of 1200 bytes with one frame, sent at a given time.\<close>

definition data_packet :: "QUICPacketNumber \<Rightarrow> ink_hrtime \<Rightarrow> QUICPacketInfo" where
  "data_packet pn sent =
     \<lparr>packet_number = pn, pn_space = ApplicationData, ptype = PROTECTED, time_sent = sent,
      ack_eliciting = True, in_flight = True, is_crypto_packet = False, sent_bytes = 1200,
      frames = [\<lparr>frame_id = unat pn, generated_by = Some 0\<rparr>]\<rparr>"

text \<open>An ACK frame with one block and no ECN section.\<close>

definition ack_of :: "QUICPacketNumber \<Rightarrow> 64 word \<Rightarrow> QUICAckFrame" where
  "ack_of largest first_block =
     \<lparr>largest_acknowledged = largest, ack_delay = 0, first_ack_block = first_block,
      ack_blocks = [], ecn_section = None\<rparr>"


text \<open>
  A trace on the new detector: packets 1 and 2 are sent at 1000 ns, packet 3 at 1200 ns,
  and at 1500 ns an ACK frame arrives that acknowledges packet 2 alone. The states the
  detector goes through: after the three packets; after packet 2 was acknowledged and
  removed; after loss detection; and at the end of the ACK, with the timer re-armed.
\<close>

definition example_trace :: "invocation list" where
  "example_trace =
     [(server_context, 1000, On_packet_sent (data_packet 1 1000) True),
      (server_context, 1000, On_packet_sent (data_packet 2 1000) True),
      (server_context, 1200, On_packet_sent (data_packet 3 1200) True),
      (server_context, 1500, Handle_frame ApplicationData (ACK (ack_of 2 0)))]"

definition after_three_sent :: QUICLossDetector where
  "after_three_sent =
     new_detector\<lparr>loss_detection_alarm_at := 25001200, loss_detection_timer := True,
       ack_eliciting_outstanding := 3, time_of_last_sent_ack_eliciting_packet := 1200,
       sent_packets := (\<lambda>i. [])(ApplicationData :=
          [(1, data_packet 1 1000), (2, data_packet 2 1000), (3, data_packet 3 1200)]),
       calls := [CC_on_packet_sent 1200, CC_on_packet_sent 1200, CC_on_packet_sent 1200]\<rparr>"

definition after_packet_acked :: QUICLossDetector where
  "after_packet_acked =
     after_three_sent\<lparr>largest_acked_packet := (\<lambda>i. 0)(ApplicationData := 2),
       rtt_measure := new_rtt_measure\<lparr>latest_rtt := 500, smoothed_rtt := 500, rttvar := 250\<rparr>,
       ack_eliciting_outstanding := 2,
       sent_packets := (\<lambda>i. [])(ApplicationData :=
          [(1, data_packet 1 1000), (3, data_packet 3 1200)]),
       calls := [CC_on_packet_sent 1200, CC_on_packet_sent 1200, CC_on_packet_sent 1200,
                 CC_on_packet_acked (data_packet 2 1000), On_frame_acked 0 2]\<rparr>"

definition after_loss_detection :: QUICLossDetector where
  "after_loss_detection =
     after_packet_acked\<lparr>ack_eliciting_outstanding := 1,
       sent_packets := (\<lambda>i. [])(ApplicationData := [(3, data_packet 3 1200)]),
       calls := [CC_on_packet_sent 1200, CC_on_packet_sent 1200, CC_on_packet_sent 1200,
                 CC_on_packet_acked (data_packet 2 1000), On_frame_acked 0 2,
                 CC_on_packets_lost [(1, data_packet 1 1000)],
                 Trigger_PACKET_LOST (data_packet 1 1000), On_frame_lost 0 1]\<rparr>"

definition after_example_trace :: QUICLossDetector where
  "after_example_trace =
     new_detector\<lparr>loss_detection_alarm_at := 25002700, loss_detection_timer := True,
       ack_eliciting_outstanding := 1, time_of_last_sent_ack_eliciting_packet := 1200,
       largest_acked_packet := (\<lambda>i. 0)(ApplicationData := 2),
       sent_packets := (\<lambda>i. [])(ApplicationData := [(3, data_packet 3 1200)]),
       rtt_measure := new_rtt_measure\<lparr>latest_rtt := 500, smoothed_rtt := 500, rttvar := 250\<rparr>,
       calls := [CC_on_packet_sent 1200, CC_on_packet_sent 1200, CC_on_packet_sent 1200,
                 CC_on_packet_acked (data_packet 2 1000), On_frame_acked 0 2,
                 CC_on_packets_lost [(1, data_packet 1 1000)],
                 Trigger_PACKET_LOST (data_packet 1 1000), On_frame_lost 0 1]\<rparr>"

text \<open>
  A shorter trace: packet 1 is sent at 1000 ns and acknowledged at 1500 ns. The states:
  after the packet; after it was acknowledged and removed; and at the end of the ACK,
  when nothing is outstanding and the timer has been cancelled and the alarm cleared.
\<close>

definition idle_trace :: "invocation list" where
  "idle_trace =
     [(server_context, 1000, On_packet_sent (data_packet 1 1000) True),
      (server_context, 1500, Handle_frame ApplicationData (ACK (ack_of 1 0)))]"

definition after_one_sent :: QUICLossDetector where
  "after_one_sent =
     new_detector\<lparr>loss_detection_alarm_at := 25001000, loss_detection_timer := True,
       ack_eliciting_outstanding := 1, time_of_last_sent_ack_eliciting_packet := 1000,
       sent_packets := (\<lambda>i. [])(ApplicationData := [(1, data_packet 1 1000)]),
       calls := [CC_on_packet_sent 1200]\<rparr>"

definition after_one_acked :: QUICLossDetector where
  "after_one_acked =
     new_detector\<lparr>loss_detection_alarm_at := 25001000, loss_detection_timer := True,
       time_of_last_sent_ack_eliciting_packet := 1000,
       largest_acked_packet := (\<lambda>i. 0)(ApplicationData := 1),
       rtt_measure := new_rtt_measure\<lparr>latest_rtt := 500, smoothed_rtt := 500, rttvar := 250\<rparr>,
       calls := [CC_on_packet_sent 1200, CC_on_packet_acked (data_packet 1 1000),
                 On_frame_acked 0 1]\<rparr>"

definition after_idle_trace :: QUICLossDetector where
  "after_idle_trace =
     new_detector\<lparr>time_of_last_sent_ack_eliciting_packet := 1000,
       largest_acked_packet := (\<lambda>i. 0)(ApplicationData := 1),
       rtt_measure := new_rtt_measure\<lparr>latest_rtt := 500, smoothed_rtt := 500, rttvar := 250\<rparr>,
       calls := [CC_on_packet_sent 1200, CC_on_packet_acked (data_packet 1 1000),
                 On_frame_acked 0 1]\<rparr>"

text \<open>
  The detector after the three packets, on a path with an RTT of 30 ms, when packet 3 has
  been acknowledged by an earlier frame that did not remove packets 1 and 2.
\<close>

definition on_slow_path :: QUICLossDetector where
  "on_slow_path =
     after_three_sent\<lparr>largest_acked_packet := (\<lambda>i. 0)(ApplicationData := 3),
       rtt_measure := new_rtt_measure\<lparr>latest_rtt := 30000000, smoothed_rtt := 30000000,
                                     rttvar := 15000000\<rparr>\<rparr>"

text \<open>
  The calls \<^verbatim>\<open>_retransmit_lost_packet\<close> makes for a descriptor: \<^verbatim>\<open>on_frame_lost\<close> for
  each frame that has a generator, in the order of the frames.
\<close>

definition on_frame_lost_calls :: "QUICPacketInfo \<Rightarrow> callback list" where
  "on_frame_lost_calls info =
     List.map_filter
       (\<lambda>f. map_option (\<lambda>reactor. On_frame_lost reactor (frame_id f)) (generated_by f))
       (frames info)"

section \<open>Properties\<close>

lemmas example_defs =
  new_detector_def new_rtt_measure_def server_context_def first_less_def data_packet_def
  ack_of_def reset_def rtt_reset_def

subsection \<open>RTT estimation\<close>

text \<open>
  Conversions, products and sums of \<^verbatim>\<open>double\<close> are exact on the multiples of 1/8 whose
  numerator is below \<open>2 ^ 53\<close> in magnitude.
\<close>

lemma bit_length_nonneg: "0 \<le> bit_length n"
  by (induction n rule: bit_length.induct) (subst bit_length.simps, simp)

lemma bit_length_le: "n < 2 ^ k \<Longrightarrow> bit_length n \<le> int k"
proof (induction k arbitrary: n)
  case 0
  then show ?case by (subst bit_length.simps) simp
next
  case (Suc k)
  show ?case
  proof (cases "n \<le> 0")
    case True
    then show ?thesis by (subst bit_length.simps) simp
  next
    case False
    have "n div 2 < 2 ^ k" using Suc.prems by simp
    then have "bit_length (n div 2) \<le> int k" by (rule Suc.IH)
    then show ?thesis using False by (subst bit_length.simps) simp
  qed
qed

lemma binade_le:
  assumes "\<bar>x\<bar> < 2 ^ 50"
  shows "binade x \<le> 49"
proof (cases "1 \<le> \<bar>x\<bar>")
  case True
  have "of_int \<lfloor>\<bar>x\<bar>\<rfloor> \<le> \<bar>x\<bar>" by simp
  then have "(of_int \<lfloor>\<bar>x\<bar>\<rfloor> :: rat) < of_int (2 ^ 50)" using assms by simp
  then have "\<lfloor>\<bar>x\<bar>\<rfloor> < 2 ^ 50" by (simp only: of_int_less_iff)
  then have "bit_length \<lfloor>\<bar>x\<bar>\<rfloor> \<le> int 50" by (rule bit_length_le)
  then show ?thesis using True by (simp add: binade_def)
next
  case False
  then show ?thesis using bit_length_nonneg [of "\<lceil>1 / \<bar>x\<bar>\<rceil> - 1"] by (simp add: binade_def)
qed

lemma round_to_even_of_int: "round_to_even (of_int k) = k"
  by (simp add: round_to_even_def)

text \<open>A multiple of 1/8 with a numerator below \<open>2 ^ 53\<close> is representable.\<close>

lemma to_double_eighths:
  assumes "\<bar>k\<bar> < 2 ^ 53"
  shows "to_double (of_int k / 8) = of_int k / 8"
proof (cases "k = 0")
  case True
  then show ?thesis by (simp add: to_double_def)
next
  case False
  define x :: rat where "x = of_int k / 8"
  have "\<bar>x\<bar> = of_int \<bar>k\<bar> / 8" by (simp add: x_def)
  also have "\<dots> < of_int (2 ^ 53) / 8" using assms by (simp only: of_int_less_iff divide_strict_right_mono zero_less_numeral)
  finally have "\<bar>x\<bar> < 2 ^ 50" by simp
  then have b: "binade x \<le> 49" by (rule binade_le)
  define j where "j = nat (49 - binade x)"
  have e: "binade x - 52 = - int (j + 3)" using b by (simp add: j_def)
  have ulp: "(2 :: rat) powi (binade x - 52) = 1 / 2 ^ (j + 3)"
    unfolding e by (simp only: power_int_minus_divide power_int_of_nat)
  have q: "x / (1 / 2 ^ (j + 3)) = of_int (k * 2 ^ j)" by (simp add: x_def power_add)
  have "to_double x = of_int (k * 2 ^ j) * (1 / 2 ^ (j + 3))"
    using False unfolding to_double_def Let_def ulp q round_to_even_of_int by (simp add: x_def)
  also have "\<dots> = x" by (simp add: x_def power_add)
  finally show ?thesis by (simp add: x_def)
qed

lemma to_double_of_int: "\<bar>k\<bar> < 2 ^ 50 \<Longrightarrow> to_double (of_int k) = of_int k"
  using to_double_eighths [of "8 * k"] by simp

text \<open>
  The conversion of a fraction to \<^verbatim>\<open>ink_hrtime\<close> is the truncating division. So, as
  long as \<open>rttvar\<close>, \<open>smoothed_rtt\<close> and the adjusted sample are below \<open>2 ^ 49\<close> nanoseconds
  in magnitude (more than six days), the two smoothing expressions are
  \<open>(3 * rttvar + deviation) sdiv 4\<close> and \<open>(7 * smoothed_rtt + adjusted) sdiv 8\<close>.
\<close>

lemma hrtime_of_double_fraction:
  assumes "0 < d"
  shows "hrtime_of_double (of_int n / of_int d) = n sdiv d"
proof (cases "0 \<le> n")
  case True
  then have "0 \<le> (of_int n / of_int d :: rat)" using assms by simp
  then have "hrtime_of_double (of_int n / of_int d) = n div d"
    unfolding hrtime_of_double_def by (simp only: if_True floor_divide_of_int_eq)
  also have "\<dots> = n sdiv d" using True assms by (simp add: signed_divide_int_def sgn_if)
  finally show ?thesis .
next
  case False
  then have neg: "\<not> 0 \<le> (of_int n / of_int d :: rat)" using assms by (simp add: field_simps)
  have "\<lceil>of_int n / of_int d :: rat\<rceil> = - \<lfloor>of_int (- n) / of_int d :: rat\<rfloor>"
    by (simp add: ceiling_def)
  also have "\<dots> = - ((- n) div d)" by (simp only: floor_divide_of_int_eq)
  also have "\<dots> = n sdiv d" using False assms by (simp add: signed_divide_int_def sgn_if)
  finally show ?thesis using neg unfolding hrtime_of_double_def by (simp only: if_False)
qed


lemma hrtime_of_double_eighths:
  "hrtime_of_double (7 / 8 * of_int a + 1 / 8 * of_int b) = (7 * a + b) sdiv 8"
proof -
  have e: "(7 / 8 * of_int a + 1 / 8 * of_int b :: rat) = of_int (7 * a + b) / of_int 8"
    by simp
  show ?thesis unfolding e by (rule hrtime_of_double_fraction) simp
qed





lemma smoothed_rtt_exact:
  assumes "\<bar>a\<bar> < 2 ^ 49" and "\<bar>b\<bar> < 2 ^ 49"
  shows "hrtime_of_double
           (double_plus (double_times (7 / 8) (double_of_hrtime a))
                        (double_times (1 / 8) (double_of_hrtime b))) = (7 * a + b) sdiv 8"
proof -
  have a: "double_of_hrtime a = of_int a" and b: "double_of_hrtime b = of_int b"
    using assms by (simp_all add: double_of_hrtime_def to_double_of_int)
  have "double_times (7 / 8) (of_int a) = to_double (of_int (7 * a) / 8)"
    by (simp add: double_times_def)
  also have "\<dots> = of_int (7 * a) / 8" using assms by (intro to_double_eighths) simp
  finally have ta: "double_times (7 / 8) (of_int a) = of_int (7 * a) / 8" .
  have "double_times (1 / 8) (of_int b) = to_double (of_int b / 8)"
    by (simp add: double_times_def)
  also have "\<dots> = of_int b / 8" using assms by (intro to_double_eighths) simp
  finally have tb: "double_times (1 / 8) (of_int b) = of_int b / 8" .
  have "double_plus (of_int (7 * a) / 8) (of_int b / 8) = to_double (of_int (7 * a + b) / 8)"
    by (simp add: double_plus_def add_divide_distrib)
  also have "\<dots> = of_int (7 * a + b) / 8" using assms by (intro to_double_eighths) simp
  also have "\<dots> = 7 / 8 * of_int a + 1 / 8 * of_int b" by simp
  finally show ?thesis unfolding a b ta tb by (simp only: hrtime_of_double_eighths)
qed

text \<open>
  The conversion of \<open>2 ^ 53 + 1\<close> is a tie between \<open>2 ^ 53\<close> and \<open>2 ^ 53 + 2\<close> and goes to
  the even significand.
\<close>

lemma double_of_hrtime_rounds:
  "double_of_hrtime (2 ^ 53 + 1) = 2 ^ 53 \<and> double_of_hrtime (2 ^ 53 + 3) = 2 ^ 53 + 4"
  by code_simp

text \<open>The factor of the exponential backoff at the counts 0, 5, 30 and 31.\<close>

lemma shift_left_one_values:
  "shift_left_one 0 = 1 \<and> shift_left_one 5 = 32 \<and> shift_left_one 30 = 2 ^ 30 \<and>
   shift_left_one 31 = - (2 ^ 31)"
  by (simp add: shift_left_one_def)



lemma update_rtt_example:
  "update_rtts [(30000000, 0), (40000000, 5000000)] new_rtt_measure =
     new_rtt_measure\<lparr>latest_rtt := 40000000, smoothed_rtt := 30625000, rttvar := 12500000\<rparr>"
  by code_simp

lemma min_rtt_first: "smoothed_rtt m = 0 \<Longrightarrow> min_rtt (update_rtt latest delay m) = 0"
  by (simp add: update_rtt_def Let_def)

lemma min_rtt_stays:
  "min_rtt m = 0 \<Longrightarrow> 0 \<le> latest \<Longrightarrow> min_rtt (update_rtt latest delay m) = 0"
  by (simp add: update_rtt_def Let_def)

lemma min_rtt_update_rtts:
  "min_rtt m = 0 \<Longrightarrow> list_all (\<lambda>sample. 0 \<le> fst sample) samples \<Longrightarrow>
   min_rtt (update_rtts samples m) = 0"
  by (induction samples arbitrary: m) (auto simp: min_rtt_stays)

text \<open>
  C9. Starting without a smoothed RTT, after a first sample and any further samples with
  a non-negative latest RTT, \<open>min_rtt\<close> is 0. The next update with a non-negative sample
  then leaves \<open>min_rtt\<close> at 0 and tests the sample against the clamped ACK delay alone:
  the sample is reduced by the delay exactly when it exceeds the delay.
\<close>

theorem min_rtt_remains_zero:
  assumes "smoothed_rtt m = 0"
    and "list_all (\<lambda>sample. 0 \<le> fst sample) samples"
    and "0 \<le> latest"
  shows "min_rtt (update_rtts (first # samples) m) = 0 \<and>
         update_rtt latest delay (update_rtts (first # samples) m) =
           (let m' = update_rtts (first # samples) m;
                clamped = min delay (max_ack_delay m');
                adjusted = (if latest > clamped then latest - clamped else latest)
            in if smoothed_rtt m' = 0 then
                 m'\<lparr>latest_rtt := latest, smoothed_rtt := latest, rttvar := latest sdiv 2\<rparr>
               else
                 m'\<lparr>latest_rtt := latest,
                     rttvar := hrtime_of_double
                       (double_plus
                          (double_times (3 / 4) (double_of_hrtime (rttvar m')))
                          (double_times (1 / 4)
                             (double_of_hrtime \<bar>smoothed_rtt m' - adjusted\<bar>))),
                     smoothed_rtt := hrtime_of_double
                       (double_plus
                          (double_times (7 / 8) (double_of_hrtime (smoothed_rtt m')))
                          (double_times (1 / 8) (double_of_hrtime adjusted)))\<rparr>)"
proof -
  obtain l d where first: "first = (l, d)" by (cases first)
  have z: "min_rtt (update_rtts (first # samples) m) = 0"
    unfolding first using assms(1,2) by (simp add: min_rtt_update_rtts min_rtt_first)
  have u: "update_rtt latest delay (update_rtts (first # samples) m) =
           (let m' = update_rtts (first # samples) m;
                clamped = min delay (max_ack_delay m');
                adjusted = (if latest > clamped then latest - clamped else latest)
            in if smoothed_rtt m' = 0 then
                 m'\<lparr>latest_rtt := latest, smoothed_rtt := latest, rttvar := latest sdiv 2\<rparr>
               else
                 m'\<lparr>latest_rtt := latest,
                     rttvar := hrtime_of_double
                       (double_plus
                          (double_times (3 / 4) (double_of_hrtime (rttvar m')))
                          (double_times (1 / 4)
                             (double_of_hrtime \<bar>smoothed_rtt m' - adjusted\<bar>))),
                     smoothed_rtt := hrtime_of_double
                       (double_plus
                          (double_times (7 / 8) (double_of_hrtime (smoothed_rtt m')))
                          (double_times (1 / 8) (double_of_hrtime adjusted)))\<rparr>)"
    using z assms(3) by (simp add: update_rtt_def Let_def)
  from z u show ?thesis by (rule conjI)
qed

theorem min_rtt_remains_zero_witness:
  "smoothed_rtt new_rtt_measure = 0 \<and>
   list_all (\<lambda>sample. 0 \<le> fst sample) [(40000000 :: int, 5000000 :: int)] \<and>
   (0 :: int) \<le> 20000000 \<and>
   min_rtt (update_rtts [(30000000, 0), (40000000, 5000000)] new_rtt_measure) = 0 \<and>
   smoothed_rtt (update_rtt 20000000 30000000
     (update_rtts [(30000000, 0), (40000000, 5000000)] new_rtt_measure)) = 29296875"
proof -
  have a: "smoothed_rtt new_rtt_measure = 0" by (simp add: new_rtt_measure_def)
  have b: "list_all (\<lambda>sample. 0 \<le> fst sample) [(40000000 :: int, 5000000 :: int)]" by simp
  have c: "(0 :: int) \<le> 20000000" by simp
  show ?thesis
    using a b c min_rtt_remains_zero [OF a b c, of "(30000000, 0)" 30000000]
    unfolding update_rtt_example
    by (simp add: new_rtt_measure_def Let_def smoothed_rtt_exact signed_divide_int_def)
qed

subsection \<open>The loss-detection timer\<close>

text \<open>
  C1. \<^verbatim>\<open>_get_earliest_loss_time\<close> does not return the earliest non-zero loss time. The
  loop replaces the running value when it is \<^emph>\<open>non-zero\<close> (\<^verbatim>\<open>time != 0\<close>), not when it is
  zero. With loss times \<open>(0, 5, 0)\<close> for Initial, Handshake and ApplicationData it returns
  0 for Initial, so the timer is not armed in time-threshold mode; with \<open>(3, 7, 0)\<close> it
  returns 7 for Handshake, not 3.
\<close>

theorem get_earliest_loss_time_not_the_minimum:
  "get_earliest_loss_time (s\<lparr>loss_time := (\<lambda>i. 0)(Handshake := 5)\<rparr>) = (0, Initial) \<and>
   get_earliest_loss_time (s\<lparr>loss_time := (\<lambda>i. 0)(Initial := 3, Handshake := 7)\<rparr>) =
     (7, Handshake)"
  by (simp add: get_earliest_loss_time_def)

theorem get_earliest_loss_time_not_the_minimum_witness:
  "get_earliest_loss_time (new_detector\<lparr>loss_time := (\<lambda>i. 0)(Handshake := 5)\<rparr>) = (0, Initial) \<and>
   get_earliest_loss_time (new_detector\<lparr>loss_time := (\<lambda>i. 0)(Initial := 3, Handshake := 7)\<rparr>) =
     (7, Handshake)"
  by (rule get_earliest_loss_time_not_the_minimum)

text \<open>The detector after one ack-eliciting packet, number 1, was sent at 1000 ns.\<close>

lemma one_sent:
  "on_packet_sent server_context (data_packet 1 1000) True new_detector =
     new_detector\<lparr>loss_detection_alarm_at := 25001000, loss_detection_timer := True,
       ack_eliciting_outstanding := 1, time_of_last_sent_ack_eliciting_packet := 1000,
       sent_packets := (\<lambda>i. [])(ApplicationData := [(1, data_packet 1 1000)]),
       calls := [CC_on_packet_sent 1200]\<rparr>"
  by (simp add: on_packet_sent_def add_to_sent_packet_list_def map_find_def call_def
      set_loss_detection_timer_def get_earliest_loss_time_def update_timer_def
      is_client_without_one_rtt_key_def current_pto_period_def shift_left_one_def Let_def example_defs)

text \<open>
  C5, as amended. A tick of the timer leaves the detector as it is whenever the clock is
  before the alarm. The comparison with the clock is the handler's only guard.
\<close>

theorem tick_before_alarm_is_noop:
  "now < loss_detection_alarm_at s \<Longrightarrow> event_handler ctx now EVENT_INTERVAL s = s"
  by (simp add: event_handler_def)

theorem tick_before_alarm_is_noop_witness:
  "5000 < loss_detection_alarm_at
            (on_packet_sent server_context (data_packet 1 1000) True new_detector) \<and>
   event_handler server_context 5000 EVENT_INTERVAL
     (on_packet_sent server_context (data_packet 1 1000) True new_detector) =
   on_packet_sent server_context (data_packet 1 1000) True new_detector"
proof -
  have h: "5000 < loss_detection_alarm_at
                    (on_packet_sent server_context (data_packet 1 1000) True new_detector)"
    by (simp add: one_sent)
  show ?thesis using h tick_before_alarm_is_noop [OF h, of server_context] by simp
qed

subsection \<open>ACK frames\<close>

text \<open>
  C10. When no tracked descriptor of the space lies in the ranges of an ACK frame,
  \<^verbatim>\<open>_on_ack_received\<close> raises \<open>largest_acked_packet\<close> of the space to the maximum of its
  value and the frame's largest acknowledged number and returns. Every other field is as
  before: the tables and counters, the RTT estimator with its \<open>crypto_count\<close> and
  \<open>pto_count\<close>, the loss times, the alarm and the timer, and no collaborator was called.
\<close>

theorem ack_of_untracked_packets_only_raises_largest_acked:
  assumes "determine_newly_acked_packets lt ack_frame (sent_packets s sp) = []"
  shows "on_ack_received lt ctx now ack_frame sp s =
           Inr (s\<lparr>largest_acked_packet := (largest_acked_packet s)
                    (sp := max (largest_acked_packet s sp) (largest_acknowledged ack_frame))\<rparr>)"
  using assms by (simp add: on_ack_received_def Let_def)

theorem ack_of_untracked_packets_witness:
  "determine_newly_acked_packets first_less (ack_of 7 0)
     (sent_packets (on_packet_sent server_context (data_packet 1 1000) True new_detector)
        ApplicationData) = [] \<and>
   on_ack_received first_less server_context 2000 (ack_of 7 0) ApplicationData
     (on_packet_sent server_context (data_packet 1 1000) True new_detector) =
   Inr ((on_packet_sent server_context (data_packet 1 1000) True new_detector)
          \<lparr>largest_acked_packet := (\<lambda>i. 0)(ApplicationData := 7)\<rparr>)"
proof -
  have h: "determine_newly_acked_packets first_less (ack_of 7 0)
     (sent_packets (on_packet_sent server_context (data_packet 1 1000) True new_detector)
        ApplicationData) = []"
    by (simp add: one_sent determine_newly_acked_packets_def range_contains_def ack_of_def
        Let_def word_le_nat_alt)
  have l: "largest_acked_packet
             (on_packet_sent server_context (data_packet 1 1000) True new_detector) = (\<lambda>i. 0)"
    unfolding one_sent by (simp add: example_defs)
  show ?thesis
    using h ack_of_untracked_packets_only_raises_largest_acked [OF h, of server_context 2000]
    unfolding l by (simp add: ack_of_def)
qed

subsection \<open>Folds\<close>

lemma fold_preserves:
  assumes "\<And>x s. P s \<Longrightarrow> P (f x s)" and "P s"
  shows "P (fold f xs s)"
  using assms(2) by (induction xs arbitrary: s) (auto intro: assms(1))

subsection \<open>The sent-packet table\<close>

lemma map_insert_keys: "fst ` set (map_insert k v t) = insert k (fst ` set t)"
proof (induction t)
  case Nil
  show ?case by simp
next
  case (Cons e t)
  obtain k' v' where e: "e = (k', v')" by (cases e)
  consider "k < k'" | "k = k'" | "\<not> k < k'" "k \<noteq> k'" by blast
  then show ?case
  proof cases
    case 1
    then show ?thesis unfolding e by simp
  next
    case 2
    then show ?thesis unfolding e by simp
  next
    case 3
    then have "map_insert k v (e # t) = (k', v') # map_insert k v t" unfolding e by simp
    then show ?thesis using Cons.IH unfolding e by auto
  qed
qed

lemma map_insert_sorted:
  "sorted_wrt (<) (map fst t) \<Longrightarrow> sorted_wrt (<) (map fst (map_insert k v t))"
proof (induction t)
  case Nil
  then show ?case by simp
next
  case (Cons e t)
  obtain k' v' where e: "e = (k', v')" by (cases e)
  have keys: "fst ` set (map_insert k v t) = insert k (fst ` set t)" by (rule map_insert_keys)
  show ?case
  proof (cases "k < k'")
    case True
    with Cons.prems e show ?thesis by auto
  next
    case False
    show ?thesis
    proof (cases "k = k'")
      case True
      with Cons.prems e show ?thesis by simp
    next
      case ne: False
      with False have lt: "k' < k" by simp
      from Cons.prems e have "sorted_wrt (<) (map fst t)" and all: "\<forall>x\<in>set t. k' < fst x" by auto
      then have "sorted_wrt (<) (map fst (map_insert k v t))" using Cons.IH by simp
      moreover have "\<forall>x\<in>set (map_insert k v t). k' < fst x"
      proof
        fix x assume "x \<in> set (map_insert k v t)"
        then have "fst x \<in> insert k (fst ` set t)" using keys by blast
        then show "k' < fst x" using lt all by auto
      qed
      ultimately show ?thesis using e False ne by simp
    qed
  qed
qed

lemma map_insert_fresh_count:
  "k \<notin> fst ` set t \<Longrightarrow>
   length (filter P (map_insert k v t)) = length (filter P t) + (if P (k, v) then 1 else 0)"
  by (induction t) auto

lemma map_find_insert_fresh: "k \<notin> fst ` set t \<Longrightarrow> map_find (map_insert k v t) k = Some v"
  unfolding map_find_def by (induction t) (auto split: if_splits)

lemma map_find_None: "map_find t k = None \<longleftrightarrow> k \<notin> fst ` set t"
  unfolding map_find_def by (simp add: map_of_eq_None_iff)

lemma map_find_Some_mem: "map_find t k = Some v \<Longrightarrow> (k, v) \<in> set t"
  unfolding map_find_def by (rule map_of_SomeD)

lemma map_erase_absent: "map_find t k = None \<Longrightarrow> map_erase k t = t"
  unfolding map_erase_def map_find_None by (induction t) auto

lemma map_erase_sorted:
  "sorted_wrt (<) (map fst t) \<Longrightarrow> sorted_wrt (<) (map fst (map_erase k t))"
  unfolding map_erase_def by (induction t) auto

lemma map_erase_keys: "fst ` set (map_erase k t) \<subseteq> fst ` set t"
  unfolding map_erase_def by auto

lemma map_erase_count:
  "sorted_wrt (<) (map fst t) \<Longrightarrow> map_find t k = Some v \<Longrightarrow>
   length (filter P (map_erase k t)) + (if P (k, v) then 1 else 0) = length (filter P t)"
proof (induction t)
  case Nil
  then show ?case by (simp add: map_find_def)
next
  case (Cons e t)
  obtain k' v' where e: "e = (k', v')" by (cases e)
  show ?case
  proof (cases "k = k'")
    case True
    with Cons.prems e have v: "v' = v" by (simp add: map_find_def)
    from Cons.prems e True have "\<forall>x\<in>set t. fst x \<noteq> k" by auto
    then have "map_erase k t = t" unfolding map_erase_def by (induction t) auto
    then have "map_erase k (e # t) = t" using e True by (simp add: map_erase_def)
    then show ?thesis using e True v by simp
  next
    case False
    with Cons.prems e have "map_find t k = Some v" by (simp add: map_find_def)
    moreover from Cons.prems have "sorted_wrt (<) (map fst t)" by simp
    ultimately have "length (filter P (map_erase k t)) + (if P (k, v) then 1 else 0) = length (filter P t)"
      by (rule Cons.IH [rotated])
    then show ?thesis using e False by (simp add: map_erase_def)
  qed
qed


subsection \<open>The outstanding counters\<close>

lemma of_nat_pred_word:
  "n' + (if b then 1 else 0) = n \<Longrightarrow> (of_nat n' :: 32 word) = of_nat n - (if b then 1 else 0)"
  by (cases b) auto

lemma tracked_remove:
  assumes sorted: "sorted_wrt (<) (map fst (sent_packets s sp))"
    and found: "map_find (sent_packets s sp) pn = Some v"
  shows "tracked flag (remove_from_sent_packet_list pn sp s) + (if flag v then 1 else 0) =
         tracked flag s"
proof -
  have cnt: "length (filter (\<lambda>e. flag (snd e)) (map_erase pn (sent_packets s sp))) +
             (if flag v then 1 else 0) = length (filter (\<lambda>e. flag (snd e)) (sent_packets s sp))"
    using map_erase_count [OF sorted found, of "\<lambda>e. flag (snd e)"] by simp
  have tab: "sent_packets (remove_from_sent_packet_list pn sp s) =
             (sent_packets s)(sp := map_erase pn (sent_packets s sp))"
    by (simp add: remove_from_sent_packet_list_def decrement_outstanding_counters_def Let_def
        split: option.split)
  show ?thesis unfolding tracked_def tab using cnt by (cases sp) simp_all
qed

lemma remove_absent:
  "map_find (sent_packets s sp) pn = None \<Longrightarrow> remove_from_sent_packet_list pn sp s = s"
  by (simp add: remove_from_sent_packet_list_def decrement_outstanding_counters_def
      map_erase_absent)

lemma remove_tables:
  "sent_packets (remove_from_sent_packet_list pn sp s) =
     (sent_packets s)(sp := map_erase pn (sent_packets s sp))"
  by (simp add: remove_from_sent_packet_list_def decrement_outstanding_counters_def Let_def
      split: option.split)

lemma remove_counters:
  "map_find (sent_packets s sp) pn = Some v \<Longrightarrow>
   ack_eliciting_outstanding (remove_from_sent_packet_list pn sp s) =
     ack_eliciting_outstanding s - (if ack_eliciting v then 1 else 0) \<and>
   crypto_outstanding (remove_from_sent_packet_list pn sp s) =
     crypto_outstanding s - (if is_crypto_packet v then 1 else 0)"
  by (simp add: remove_from_sent_packet_list_def decrement_outstanding_counters_def Let_def)

lemma well_tracked_remove:
  assumes "well_tracked L s"
  shows "well_tracked L (remove_from_sent_packet_list pn sp s)"
proof (cases "map_find (sent_packets s sp) pn")
  case None
  then show ?thesis using assms by (simp add: remove_absent)
next
  case (Some v)
  let ?s' = "remove_from_sent_packet_list pn sp s"
  have sorted: "sorted_wrt (<) (map fst (sent_packets s sp))"
    using assms by (simp add: well_tracked_def)
  have a: "ack_eliciting_outstanding ?s' = of_nat (tracked ack_eliciting ?s')"
    using remove_counters [OF Some] assms
      of_nat_pred_word [OF tracked_remove [OF sorted Some, of ack_eliciting]]
    by (simp add: well_tracked_def counters_agree_def)
  have c: "crypto_outstanding ?s' = of_nat (tracked is_crypto_packet ?s')"
    using remove_counters [OF Some] assms
      of_nat_pred_word [OF tracked_remove [OF sorted Some, of is_crypto_packet]]
    by (simp add: well_tracked_def counters_agree_def)
  have t: "\<forall>q. sorted_wrt (<) (map fst (sent_packets ?s' q)) \<and>
        (\<forall>k \<in> fst ` set (sent_packets ?s' q). \<exists>p. L q = Some p \<and> k \<le> p)"
  proof
    fix q
    show "sorted_wrt (<) (map fst (sent_packets ?s' q)) \<and>
        (\<forall>k \<in> fst ` set (sent_packets ?s' q). \<exists>p. L q = Some p \<and> k \<le> p)"
    proof (cases "q = sp")
      case True
      have "sorted_wrt (<) (map fst (map_erase pn (sent_packets s sp)))"
        using sorted by (rule map_erase_sorted)
      moreover have "\<forall>k \<in> fst ` set (map_erase pn (sent_packets s sp)). \<exists>p. L sp = Some p \<and> k \<le> p"
        using assms map_erase_keys [of pn "sent_packets s sp"]
        unfolding well_tracked_def by blast
      ultimately show ?thesis using True by (simp add: remove_tables)
    next
      case False
      then show ?thesis using assms by (simp add: remove_tables well_tracked_def)
    qed
  qed
  show ?thesis unfolding well_tracked_def counters_agree_def using a c t by blast
qed


lemma well_tracked_fields [simp]:
  "well_tracked L (s\<lparr>loss_time := a\<rparr>) = well_tracked L s"
  "well_tracked L (s\<lparr>calls := b\<rparr>) = well_tracked L s"
  "well_tracked L (s\<lparr>loss_detection_alarm_at := c\<rparr>) = well_tracked L s"
  "well_tracked L (s\<lparr>loss_detection_timer := d\<rparr>) = well_tracked L s"
  "well_tracked L (s\<lparr>largest_acked_packet := e\<rparr>) = well_tracked L s"
  "well_tracked L (s\<lparr>rtt_measure := f\<rparr>) = well_tracked L s"
  "well_tracked L (s\<lparr>time_of_last_sent_crypto_packet := g\<rparr>) = well_tracked L s"
  "well_tracked L (s\<lparr>time_of_last_sent_ack_eliciting_packet := h\<rparr>) = well_tracked L s"
  "well_tracked L (s\<lparr>ack_delay_exponent := i\<rparr>) = well_tracked L s"
  by (simp_all add: well_tracked_def counters_agree_def tracked_def)

lemma well_tracked_call [simp]: "well_tracked L (call c s) = well_tracked L s"
  by (simp add: call_def)

lemma well_tracked_update_timer [simp]: "well_tracked L (update_timer t s) = well_tracked L s"
  by (simp add: update_timer_def Let_def)

lemma well_tracked_set_timer [simp]:
  "well_tracked L (set_loss_detection_timer ctx s) = well_tracked L s"
  by (simp add: set_loss_detection_timer_def Let_def)

lemma well_tracked_send_packet [simp]:
  "well_tracked L (send_packet level padded s) = well_tracked L s"
  by (simp add: send_packet_def)

lemma well_tracked_retransmit:
  "well_tracked L s \<Longrightarrow> well_tracked L (retransmit_lost_packet info s)"
  unfolding retransmit_lost_packet_def
  by (rule fold_preserves) (simp_all split: option.split)

lemma well_tracked_on_packet_acked:
  assumes "well_tracked L s"
  shows "well_tracked L (on_packet_acked acked s)"
proof -
  have "well_tracked L (fold (\<lambda>frame_info s.
            case generated_by frame_info of
              None \<Rightarrow> s
            | Some reactor \<Rightarrow> call (On_frame_acked reactor (frame_id frame_info)) s)
          (frames acked)
          (if in_flight acked then call (CC_on_packet_acked acked) s else s))"
    by (rule fold_preserves) (simp_all add: assms split: option.split)
  then show ?thesis unfolding on_packet_acked_def Let_def by (rule well_tracked_remove)
qed

lemma well_tracked_on_packets_acked:
  "well_tracked L s \<Longrightarrow> on_packets_acked index acked s = Inr s' \<Longrightarrow> well_tracked L s'"
proof (induction acked arbitrary: s)
  case Nil
  then show ?case by simp
next
  case (Cons e acked)
  from Cons.prems(2) obtain p where
    p: "map_find (sent_packets s index) (fst e) = Some p"
    and rest: "on_packets_acked index acked (on_packet_acked p s) = Inr s'"
    by (auto split: option.splits)
  from Cons.prems(1) have "well_tracked L (on_packet_acked p s)"
    by (rule well_tracked_on_packet_acked)
  then show ?case using rest by (rule Cons.IH)
qed

lemma well_tracked_detect_lost_packets:
  assumes "well_tracked L s"
  shows "well_tracked L (detect_lost_packets sp now s)"
proof -
  have step: "\<And>lost s'. well_tracked L s' \<Longrightarrow>
      well_tracked L (fold (\<lambda>lost_packet s.
          remove_from_sent_packet_list (fst lost_packet) sp
            (retransmit_lost_packet (snd lost_packet)
               (call (Trigger_PACKET_LOST (snd lost_packet)) s))) lost s')"
    by (rule fold_preserves) (simp_all add: well_tracked_remove well_tracked_retransmit)
  show ?thesis
    unfolding detect_lost_packets_def Let_def
    by (simp add: assms step split: prod.split)
qed

lemma well_tracked_retransmit_all:
  assumes "well_tracked L s"
  shows "well_tracked L (retransmit_all_unacked_crypto_data s)"
  unfolding retransmit_all_unacked_crypto_data_def Let_def
proof (rule fold_preserves [where P = "well_tracked L", OF _ assms])
  fix i s'
  assume w: "well_tracked L s'"
  let ?lost = "filter (\<lambda>info. is_crypto_packet (snd info)) (sent_packets s' i)"
  have "well_tracked L (fold (\<lambda>info. retransmit_lost_packet (snd info)) ?lost s')"
    by (rule fold_preserves) (simp_all add: w well_tracked_retransmit)
  then have "well_tracked L (call (CC_on_packets_lost ?lost)
     (fold (\<lambda>info. retransmit_lost_packet (snd info)) ?lost s'))" by simp
  then show "well_tracked L (fold (\<lambda>packet_number. remove_from_sent_packet_list packet_number i)
     (map fst ?lost)
     (call (CC_on_packets_lost ?lost) (fold (\<lambda>info. retransmit_lost_packet (snd info)) ?lost s')))"
    by (rule fold_preserves [rotated]) (rule well_tracked_remove)
qed

lemma well_tracked_timeout:
  assumes "well_tracked L s"
  shows "well_tracked L (on_loss_detection_timeout ctx now s)"
  unfolding on_loss_detection_timeout_def Let_def
  by (simp add: assms well_tracked_detect_lost_packets well_tracked_retransmit_all
      send_one_or_two_packet_def send_one_handshake_packets_def send_one_padded_packets_def
      split: prod.split)

lemma well_tracked_event_handler:
  assumes "well_tracked L s"
  shows "well_tracked L (event_handler ctx now ev s)"
  unfolding event_handler_def
  by (cases ev) (simp_all add: assms well_tracked_timeout)

lemma sum_case_Inr:
  "(case r of Inl e \<Rightarrow> Inl e | Inr s \<Rightarrow> Inr (F s)) = Inr s' \<Longrightarrow> \<exists>s3. r = Inr s3 \<and> s' = F s3"
  by (cases r) auto

text \<open>The steps of \<^verbatim>\<open>_on_ack_received\<close> when some descriptor is newly acknowledged.\<close>

lemma on_ack_received_steps:
  assumes "on_ack_received lt ctx now ack_frame sp s = Inr s'"
    and "determine_newly_acked_packets lt ack_frame (sent_packets s sp) \<noteq> []"
  shows "\<exists>s2 s3.
           sent_packets s2 = sent_packets s \<and>
           ack_eliciting_outstanding s2 = ack_eliciting_outstanding s \<and>
           crypto_outstanding s2 = crypto_outstanding s \<and>
           largest_acked_packet s2 = (largest_acked_packet s)
              (sp := max (largest_acked_packet s sp) (largest_acknowledged ack_frame)) \<and>
           on_packets_acked sp
             (determine_newly_acked_packets lt ack_frame (sent_packets s sp)) s2 = Inr s3 \<and>
           s' = set_loss_detection_timer ctx
                  ((detect_lost_packets sp now s3)\<lparr>rtt_measure :=
                     set_pto_count 0
                       (set_crypto_count 0 (rtt_measure (detect_lost_packets sp now s3)))\<rparr>)"
proof -
  let ?s1 = "s\<lparr>largest_acked_packet := (largest_acked_packet s)
                  (sp := max (largest_acked_packet s sp) (largest_acknowledged ack_frame))\<rparr>"
  let ?acked = "determine_newly_acked_packets lt ack_frame (sent_packets s sp)"
  let ?pi = "map_find (sent_packets s sp) (largest_acknowledged ack_frame)"
  let ?s2a = "case ?pi of
                None \<Rightarrow> ?s1
              | Some p \<Rightarrow>
                  if ack_eliciting p \<or> include_ack_eliciting ?acked then
                    ?s1\<lparr>rtt_measure := update_rtt (now - time_sent p)
                       (HRTIME_USECONDS (push_bit (unat (ack_delay_exponent s)) (ack_delay ack_frame)))
                       (rtt_measure s)\<rparr>
                  else ?s1"
  let ?s2 = "case (ecn_section ack_frame, ?pi) of
               (Some ecn, Some p) \<Rightarrow> call (CC_process_ecn p ecn) ?s2a
             | _ \<Rightarrow> ?s2a"
  let ?F = "\<lambda>s3. set_loss_detection_timer ctx
                  ((detect_lost_packets sp now s3)\<lparr>rtt_measure :=
                     set_pto_count 0
                       (set_crypto_count 0 (rtt_measure (detect_lost_packets sp now s3)))\<rparr>)"
  have "on_ack_received lt ctx now ack_frame sp s =
          (case on_packets_acked sp ?acked ?s2 of Inl e \<Rightarrow> Inl e | Inr s3 \<Rightarrow> Inr (?F s3))"
    using assms(2) by (simp add: on_ack_received_def Let_def split: option.split sum.split)
  with assms(1) obtain s3 where s3: "on_packets_acked sp ?acked ?s2 = Inr s3" and s': "s' = ?F s3"
    using sum_case_Inr [where r = "on_packets_acked sp ?acked ?s2" and F = ?F and s' = s'] by auto
  have "sent_packets ?s2 = sent_packets s"
    by (simp add: call_def split: option.split)
  moreover have "ack_eliciting_outstanding ?s2 = ack_eliciting_outstanding s"
    by (simp add: call_def split: option.split)
  moreover have "crypto_outstanding ?s2 = crypto_outstanding s"
    by (simp add: call_def split: option.split)
  moreover have "largest_acked_packet ?s2 = (largest_acked_packet s)
              (sp := max (largest_acked_packet s sp) (largest_acknowledged ack_frame))"
    by (simp add: call_def split: option.split)
  ultimately show ?thesis using s3 s' by blast
qed

lemma well_tracked_same:
  assumes "sent_packets s' = sent_packets s"
    and "ack_eliciting_outstanding s' = ack_eliciting_outstanding s"
    and "crypto_outstanding s' = crypto_outstanding s"
  shows "well_tracked L s' = well_tracked L s"
  using assms by (simp add: well_tracked_def counters_agree_def tracked_def)

lemma well_tracked_on_ack_received:
  assumes "well_tracked L s" and "on_ack_received lt ctx now ack_frame sp s = Inr s'"
  shows "well_tracked L s'"
proof (cases "determine_newly_acked_packets lt ack_frame (sent_packets s sp) = []")
  case True
  then show ?thesis using assms by (auto simp: on_ack_received_def Let_def)
next
  case False
  from on_ack_received_steps [OF assms(2) False] obtain s2 s3 where
    same: "sent_packets s2 = sent_packets s"
      "ack_eliciting_outstanding s2 = ack_eliciting_outstanding s"
      "crypto_outstanding s2 = crypto_outstanding s"
    and acked: "on_packets_acked sp
             (determine_newly_acked_packets lt ack_frame (sent_packets s sp)) s2 = Inr s3"
    and s': "s' = set_loss_detection_timer ctx
                  ((detect_lost_packets sp now s3)\<lparr>rtt_measure :=
                     set_pto_count 0
                       (set_crypto_count 0 (rtt_measure (detect_lost_packets sp now s3)))\<rparr>)"
    by blast
  have "well_tracked L s2" using well_tracked_same [OF same] assms(1) by simp
  then have "well_tracked L s3" using acked by (rule well_tracked_on_packets_acked)
  then have "well_tracked L (detect_lost_packets sp now s3)"
    by (rule well_tracked_detect_lost_packets)
  then show ?thesis unfolding s' by simp
qed


lemma tracked_add:
  assumes "pn \<notin> fst ` set (sent_packets s (pn_space info))"
  shows "tracked flag (s\<lparr>sent_packets := (sent_packets s)
            (pn_space info := map_insert pn info (sent_packets s (pn_space info)))\<rparr>) =
         tracked flag s + (if flag info then 1 else 0)"
  using map_insert_fresh_count [OF assms, of "\<lambda>e. flag (snd e)" info]
  unfolding tracked_def by (cases "pn_space info") simp_all

lemma well_tracked_add:
  assumes wt: "well_tracked L s"
    and inc: "case L (pn_space info) of None \<Rightarrow> True | Some previous \<Rightarrow> previous < pn"
  shows "well_tracked (L(pn_space info := Some pn)) (add_to_sent_packet_list pn info s)"
proof -
  let ?sp = "pn_space info"
  let ?t = "sent_packets s ?sp"
  let ?s1 = "s\<lparr>sent_packets := (sent_packets s)(?sp := map_insert pn info ?t)\<rparr>"
  have below: "\<forall>k \<in> fst ` set ?t. k < pn"
  proof
    fix k assume "k \<in> fst ` set ?t"
    then obtain p where "L ?sp = Some p" "k \<le> p" using wt unfolding well_tracked_def by blast
    then show "k < pn" using inc by simp
  qed
  then have fresh: "pn \<notin> fst ` set ?t" by auto
  have found: "map_find (sent_packets ?s1 ?sp) pn = Some info"
    using map_find_insert_fresh [OF fresh] by simp
  have ca: "counters_agree s" using wt by (simp add: well_tracked_def)
  have tab: "sent_packets (add_to_sent_packet_list pn info s) = sent_packets ?s1"
    using found by (simp add: add_to_sent_packet_list_def Let_def)
  have tr: "tracked flag (add_to_sent_packet_list pn info s) =
            tracked flag s + (if flag info then 1 else 0)" for flag
    using tracked_add [OF fresh, of flag] unfolding tracked_def tab by simp
  have ae: "ack_eliciting_outstanding (add_to_sent_packet_list pn info s) =
            ack_eliciting_outstanding s + (if ack_eliciting info then 1 else 0)"
    using found by (simp add: add_to_sent_packet_list_def Let_def)
  have cr: "crypto_outstanding (add_to_sent_packet_list pn info s) =
            crypto_outstanding s + (if is_crypto_packet info then 1 else 0)"
    using found by (simp add: add_to_sent_packet_list_def Let_def)
  have counters: "counters_agree (add_to_sent_packet_list pn info s)"
    using ca unfolding counters_agree_def ae cr tr by simp
  have tables: "\<forall>q. sorted_wrt (<) (map fst (sent_packets (add_to_sent_packet_list pn info s) q)) \<and>
        (\<forall>k \<in> fst ` set (sent_packets (add_to_sent_packet_list pn info s) q).
            \<exists>p. (L(?sp := Some pn)) q = Some p \<and> k \<le> p)"
  proof
    fix q
    show "sorted_wrt (<) (map fst (sent_packets (add_to_sent_packet_list pn info s) q)) \<and>
        (\<forall>k \<in> fst ` set (sent_packets (add_to_sent_packet_list pn info s) q).
            \<exists>p. (L(?sp := Some pn)) q = Some p \<and> k \<le> p)"
    proof (cases "q = ?sp")
      case True
      have "sorted_wrt (<) (map fst (map_insert pn info ?t))"
        using wt by (simp add: well_tracked_def map_insert_sorted)
      moreover have "\<forall>k \<in> fst ` set (map_insert pn info ?t). k \<le> pn"
        using below unfolding map_insert_keys by auto
      ultimately show ?thesis using True by (simp add: tab)
    next
      case False
      then show ?thesis using wt by (simp add: tab well_tracked_def)
    qed
  qed
  show ?thesis unfolding well_tracked_def using counters tables by blast
qed

lemma well_tracked_on_packet_sent:
  assumes "well_tracked L s" and "ptype info \<noteq> VERSION_NEGOTIATION"
    and "case L (pn_space info) of None \<Rightarrow> True | Some previous \<Rightarrow> previous < packet_number info"
  shows "well_tracked (L(pn_space info := Some (packet_number info)))
           (on_packet_sent ctx info in_flight_arg s)"
  using well_tracked_add [OF assms(1,3)] assms(2)
  by (simp add: on_packet_sent_def Let_def)

lemma well_tracked_reset: "well_tracked (\<lambda>sp. None) (reset s)"
  by (simp add: well_tracked_def counters_agree_def tracked_def reset_def)

lemma well_tracked_run:
  "well_tracked L s \<Longrightarrow> strictly_increasing L trace \<Longrightarrow> run lt trace s = Inr s' \<Longrightarrow>
   \<exists>L'. well_tracked L' s'"
proof (induction trace arbitrary: L s)
  case Nil
  then show ?case by auto
next
  case (Cons i trace)
  obtain ctx now op where i: "i = (ctx, now, op)" by (cases i)
  from Cons.prems(3) obtain s1 where s1: "step lt i s = Inr s1" and rest: "run lt trace s1 = Inr s'"
    by (auto split: sum.splits)
  show ?case
  proof (cases op)
    case (On_packet_sent info in_flight_arg)
    show ?thesis
    proof (cases "ptype info = VERSION_NEGOTIATION")
      case True
      then have "s1 = s" using s1 i On_packet_sent by (simp add: on_packet_sent_def)
      moreover have "strictly_increasing L trace" using Cons.prems(2) i On_packet_sent True by simp
      ultimately show ?thesis using Cons.IH [OF _ _ rest] Cons.prems(1) by blast
    next
      case False
      then have inc: "case L (pn_space info) of None \<Rightarrow> True
                      | Some previous \<Rightarrow> previous < packet_number info"
        and tl: "strictly_increasing (L(pn_space info := Some (packet_number info))) trace"
        using Cons.prems(2) i On_packet_sent by simp_all
      have "s1 = on_packet_sent ctx info in_flight_arg s" using s1 i On_packet_sent by simp
      then have "well_tracked (L(pn_space info := Some (packet_number info))) s1"
        using well_tracked_on_packet_sent [OF Cons.prems(1) False inc] by simp
      then show ?thesis using tl rest by (rule Cons.IH)
    qed
  next
    case (Handle_frame sp frame)
    have tl: "strictly_increasing L trace" using Cons.prems(2) i Handle_frame by simp
    have "well_tracked L s1"
    proof (cases frame)
      case (ACK ack_frame)
      then have "on_ack_received lt ctx now ack_frame sp s = Inr s1"
        using s1 i Handle_frame by (auto simp: handle_frame_def split: sum.splits)
      with Cons.prems(1) show ?thesis by (rule well_tracked_on_ack_received)
    next
      case OTHER_FRAME
      then have "s1 = s" using s1 i Handle_frame by (simp add: handle_frame_def)
      then show ?thesis using Cons.prems(1) by simp
    qed
    then show ?thesis using tl rest by (rule Cons.IH)
  next
    case (Event_handler ev)
    have tl: "strictly_increasing L trace" using Cons.prems(2) i Event_handler by simp
    have "s1 = event_handler ctx now ev s" using s1 i Event_handler by simp
    then have "well_tracked L s1" using well_tracked_event_handler [OF Cons.prems(1)] by simp
    then show ?thesis using tl rest by (rule Cons.IH)
  next
    case Reset
    have tl: "strictly_increasing (\<lambda>sp. None) trace" using Cons.prems(2) i Reset by simp
    have "s1 = reset s" using s1 i Reset by simp
    then have "well_tracked (\<lambda>sp. None) s1" using well_tracked_reset by simp
    then show ?thesis using tl rest by (rule Cons.IH)
  next
    case (Update_ack_delay_exponent e)
    have tl: "strictly_increasing L trace" using Cons.prems(2) i Update_ack_delay_exponent by simp
    have "s1 = update_ack_delay_exponent e s" using s1 i Update_ack_delay_exponent by simp
    then have "well_tracked L s1" using Cons.prems(1) by (simp add: update_ack_delay_exponent_def)
    then show ?thesis using tl rest by (rule Cons.IH)
  qed
qed

text \<open>
  C7. Take any trace of operations on a constructed detector (the constructor ends with
  \<^verbatim>\<open>reset\<close>) in which the caller adds descriptors in strictly increasing packet-number
  order within each space, as the sent-packet tables require of the caller, and any point
  of the trace the detector reaches. There
  \<open>ack_eliciting_outstanding\<close> is the number of tracked descriptors with \<open>ack_eliciting\<close>
  set, over the three spaces, and \<open>crypto_outstanding\<close> is the number of tracked
  descriptors with \<open>is_crypto_packet\<close> set; the counters are 32-bit, so the numbers are
  taken modulo \<open>2 ^ 32\<close>.
\<close>

theorem outstanding_counters_count_tracked_descriptors:
  assumes "strictly_increasing (\<lambda>sp. None) trace"
    and "run lt trace (reset s0) = Inr s"
  shows "unat (ack_eliciting_outstanding s) = tracked ack_eliciting s mod 2 ^ 32 \<and>
         unat (crypto_outstanding s) = tracked is_crypto_packet s mod 2 ^ 32"
proof -
  from well_tracked_run [OF well_tracked_reset assms] obtain L where "well_tracked L s" ..
  then have "counters_agree s" by (simp add: well_tracked_def)
  then show ?thesis by (simp add: counters_agree_def unat_of_nat)
qed


subsection \<open>The largest acknowledged packet number\<close>

lemma largest_call [simp]: "largest_acked_packet (call c s) = largest_acked_packet s"
  by (simp add: call_def)

lemma largest_update_timer [simp]:
  "largest_acked_packet (update_timer t s) = largest_acked_packet s"
  by (simp add: update_timer_def Let_def)

lemma largest_set_timer [simp]:
  "largest_acked_packet (set_loss_detection_timer ctx s) = largest_acked_packet s"
  by (simp add: set_loss_detection_timer_def Let_def)

lemma largest_send_packet [simp]:
  "largest_acked_packet (send_packet level padded s) = largest_acked_packet s"
  by (simp add: send_packet_def)

lemma largest_remove [simp]:
  "largest_acked_packet (remove_from_sent_packet_list pn sp s) = largest_acked_packet s"
  by (simp add: remove_from_sent_packet_list_def decrement_outstanding_counters_def Let_def
      split: option.split)

lemma largest_add [simp]:
  "largest_acked_packet (add_to_sent_packet_list pn info s) = largest_acked_packet s"
  by (simp add: add_to_sent_packet_list_def Let_def split: option.split)

lemma largest_retransmit [simp]:
  "largest_acked_packet (retransmit_lost_packet info s) = largest_acked_packet s"
  unfolding retransmit_lost_packet_def
  by (rule fold_preserves [where P = "\<lambda>s'. largest_acked_packet s' = largest_acked_packet s"])
    (simp_all split: option.split)

lemma largest_on_packet_acked [simp]:
  "largest_acked_packet (on_packet_acked acked s) = largest_acked_packet s"
proof -
  have "largest_acked_packet (fold (\<lambda>frame_info s.
            case generated_by frame_info of
              None \<Rightarrow> s
            | Some reactor \<Rightarrow> call (On_frame_acked reactor (frame_id frame_info)) s)
          (frames acked)
          (if in_flight acked then call (CC_on_packet_acked acked) s else s)) =
        largest_acked_packet s"
    by (rule fold_preserves [where P = "\<lambda>s'. largest_acked_packet s' = largest_acked_packet s"])
      (simp_all split: option.split)
  then show ?thesis by (simp add: on_packet_acked_def Let_def)
qed

lemma largest_on_packets_acked:
  "on_packets_acked index acked s = Inr s' \<Longrightarrow> largest_acked_packet s' = largest_acked_packet s"
proof (induction acked arbitrary: s)
  case Nil
  then show ?case by simp
next
  case (Cons e acked)
  from Cons.prems obtain p where
    rest: "on_packets_acked index acked (on_packet_acked p s) = Inr s'"
    by (auto split: option.splits)
  from Cons.IH [OF rest] show ?case by simp
qed

lemma largest_detect_lost_packets [simp]:
  "largest_acked_packet (detect_lost_packets sp now s) = largest_acked_packet s"
proof -
  have step: "\<And>lost s'. largest_acked_packet s' = largest_acked_packet s \<Longrightarrow>
      largest_acked_packet (fold (\<lambda>lost_packet s.
          remove_from_sent_packet_list (fst lost_packet) sp
            (retransmit_lost_packet (snd lost_packet)
               (call (Trigger_PACKET_LOST (snd lost_packet)) s))) lost s') = largest_acked_packet s"
    by (rule fold_preserves [where P = "\<lambda>s'. largest_acked_packet s' = largest_acked_packet s"])
      simp_all
  show ?thesis
    unfolding detect_lost_packets_def Let_def
    by (simp add: step split: prod.split)
qed

lemma largest_retransmit_all [simp]:
  "largest_acked_packet (retransmit_all_unacked_crypto_data s) = largest_acked_packet s"
  unfolding retransmit_all_unacked_crypto_data_def Let_def
proof (rule fold_preserves [where P = "\<lambda>s'. largest_acked_packet s' = largest_acked_packet s"])
  fix i and s' :: QUICLossDetector
  assume w: "largest_acked_packet s' = largest_acked_packet s"
  let ?lost = "filter (\<lambda>info. is_crypto_packet (snd info)) (sent_packets s' i)"
  have "largest_acked_packet (fold (\<lambda>info. retransmit_lost_packet (snd info)) ?lost s') =
        largest_acked_packet s"
    by (rule fold_preserves [where P = "\<lambda>s'. largest_acked_packet s' = largest_acked_packet s"])
      (simp_all add: w)
  then have "largest_acked_packet (call (CC_on_packets_lost ?lost)
     (fold (\<lambda>info. retransmit_lost_packet (snd info)) ?lost s')) = largest_acked_packet s" by simp
  then show "largest_acked_packet (fold (\<lambda>packet_number. remove_from_sent_packet_list packet_number i)
     (map fst ?lost)
     (call (CC_on_packets_lost ?lost) (fold (\<lambda>info. retransmit_lost_packet (snd info)) ?lost s'))) =
     largest_acked_packet s"
    by (rule fold_preserves [where P = "\<lambda>s'. largest_acked_packet s' = largest_acked_packet s", rotated])
      simp
qed simp

lemma largest_timeout [simp]:
  "largest_acked_packet (on_loss_detection_timeout ctx now s) = largest_acked_packet s"
  unfolding on_loss_detection_timeout_def Let_def
  by (simp add: send_one_or_two_packet_def send_one_handshake_packets_def
      send_one_padded_packets_def split: prod.split)

lemma largest_event_handler [simp]:
  "largest_acked_packet (event_handler ctx now ev s) = largest_acked_packet s"
  unfolding event_handler_def by (cases ev) simp_all

lemma largest_on_packet_sent [simp]:
  "largest_acked_packet (on_packet_sent ctx info in_flight_arg s) = largest_acked_packet s"
  by (simp add: on_packet_sent_def Let_def)

lemma largest_on_ack_received:
  assumes "on_ack_received lt ctx now ack_frame sp s = Inr s'"
  shows "largest_acked_packet s' = (largest_acked_packet s)
           (sp := max (largest_acked_packet s sp) (largest_acknowledged ack_frame))"
proof (cases "determine_newly_acked_packets lt ack_frame (sent_packets s sp) = []")
  case True
  then show ?thesis using assms by (auto simp: on_ack_received_def Let_def)
next
  case False
  from on_ack_received_steps [OF assms False] obtain s2 s3 where
    l2: "largest_acked_packet s2 = (largest_acked_packet s)
              (sp := max (largest_acked_packet s sp) (largest_acknowledged ack_frame))"
    and acked: "on_packets_acked sp
             (determine_newly_acked_packets lt ack_frame (sent_packets s sp)) s2 = Inr s3"
    and s': "s' = set_loss_detection_timer ctx
                  ((detect_lost_packets sp now s3)\<lparr>rtt_measure :=
                     set_pto_count 0
                       (set_crypto_count 0 (rtt_measure (detect_lost_packets sp now s3)))\<rparr>)"
    by blast
  show ?thesis unfolding s' using largest_on_packets_acked [OF acked] l2 by simp
qed


lemma largest_step:
  assumes "step lt i s = Inr s'" and "snd (snd i) \<noteq> Reset"
  shows "largest_acked_packet s sp \<le> largest_acked_packet s' sp"
proof -
  obtain ctx now op where i: "i = (ctx, now, op)" by (cases i)
  show ?thesis
  proof (cases op)
    case (Handle_frame sp' frame)
    show ?thesis
    proof (cases frame)
      case (ACK ack_frame)
      then have "on_ack_received lt ctx now ack_frame sp' s = Inr s'"
        using assms(1) i Handle_frame by (auto simp: handle_frame_def split: sum.splits)
      from largest_on_ack_received [OF this] show ?thesis by simp
    next
      case OTHER_FRAME
      then show ?thesis using assms(1) i Handle_frame by (simp add: handle_frame_def)
    qed
  next
    case Reset
    then show ?thesis using assms(2) i by simp
  qed (use assms(1) i in \<open>auto simp: update_ack_delay_exponent_def\<close>)
qed

text \<open>
  C8, as amended. Over every trace of operations without \<^verbatim>\<open>reset\<close>,
  \<open>largest_acked_packet\<close> of each space does not decrease; \<^verbatim>\<open>reset\<close> sets it to 0.
\<close>

theorem largest_acked_packet_monotone_without_reset:
  assumes "run lt trace s = Inr s'"
    and "list_all (\<lambda>i. snd (snd i) \<noteq> Reset) trace"
  shows "largest_acked_packet s sp \<le> largest_acked_packet s' sp \<and>
         largest_acked_packet (reset s') sp = 0"
proof -
  have "largest_acked_packet s sp \<le> largest_acked_packet s' sp"
    using assms
  proof (induction trace arbitrary: s)
    case Nil
    then show ?case by simp
  next
    case (Cons i trace)
    from Cons.prems(1) obtain s1 where s1: "step lt i s = Inr s1"
      and rest: "run lt trace s1 = Inr s'"
      by (auto split: sum.splits)
    from Cons.prems(2) have ni: "snd (snd i) \<noteq> Reset"
      and tl: "list_all (\<lambda>i. snd (snd i) \<noteq> Reset) trace" by simp_all
    have "largest_acked_packet s sp \<le> largest_acked_packet s1 sp"
      using s1 ni by (rule largest_step)
    also have "\<dots> \<le> largest_acked_packet s' sp" using rest tl by (rule Cons.IH)
    finally show ?case .
  qed
  then show ?thesis by (simp add: reset_def)
qed

subsection \<open>The example trace, step by step\<close>

lemma run_append:
  "run lt (xs @ ys) s = (case run lt xs s of Inl e \<Rightarrow> Inl e | Inr s' \<Rightarrow> run lt ys s')"
  by (induction xs arbitrary: s) (auto split: sum.split)

lemma one_less_wrapped: "(1 :: 64 word) < - 1"
  by (simp add: word_less_def unsigned_minus_1_eq_mask mask_eq_exp_minus_1)

lemma three_packets_sent:
  "run first_less (take 3 example_trace) new_detector = Inr after_three_sent"
  by (simp add: example_trace_def after_three_sent_def on_packet_sent_def
      add_to_sent_packet_list_def map_find_def call_def set_loss_detection_timer_def
      get_earliest_loss_time_def update_timer_def is_client_without_one_rtt_key_def
      current_pto_period_def shift_left_one_def word_less_nat_alt Let_def example_defs)

lemma newly_acked_example:
  "determine_newly_acked_packets first_less (ack_of 2 0)
     [(1, data_packet 1 1000), (2, data_packet 2 1000), (3, data_packet 3 1200)] =
   [(2, data_packet 2 1000)]"
  by (simp add: determine_newly_acked_packets_def range_contains_def ack_of_def Let_def
      word_le_nat_alt)

lemma packet_acked_example:
  "on_packet_acked (data_packet 2 1000)
     (after_three_sent\<lparr>largest_acked_packet := (\<lambda>i. 0)(ApplicationData := 2),
        rtt_measure := new_rtt_measure\<lparr>latest_rtt := 500, smoothed_rtt := 500, rttvar := 250\<rparr>\<rparr>) =
   after_packet_acked"
  by (simp add: after_packet_acked_def after_three_sent_def map_find_def map_erase_def
      on_packet_acked_def call_def remove_from_sent_packet_list_def
      decrement_outstanding_counters_def Let_def data_packet_def new_detector_def reset_def)

lemma scan_example:
  "scan_sent_packets 2 938 (- 1) 562
     [(1, data_packet 1 1000), (3, data_packet 3 1200)] (0, []) = (0, [(1, data_packet 1 1000)])"
  by (simp add: data_packet_def one_less_wrapped)

lemma loss_detection_example:
  "detect_lost_packets ApplicationData 1500 after_packet_acked = after_loss_detection"
proof -
  have d: "min ((9 * max (500 :: int) 500) sdiv 8) 1000000 = 562"
    by (simp add: signed_divide_int_def)
  show ?thesis
    unfolding detect_lost_packets_def after_loss_detection_def
    apply (simp add: after_packet_acked_def after_three_sent_def new_detector_def reset_def
        rtt_reset_def new_rtt_measure_def Let_def d scan_example)
    apply (simp add: map_find_def map_erase_def call_def retransmit_lost_packet_def
        remove_from_sent_packet_list_def decrement_outstanding_counters_def Let_def
        data_packet_def one_less_wrapped)
    apply (simp add: fun_upd_idem)
    done
qed

lemma timer_example:
  "set_loss_detection_timer server_context
     (after_loss_detection\<lparr>rtt_measure :=
        set_pto_count 0 (set_crypto_count 0 (rtt_measure after_loss_detection))\<rparr>) =
   after_example_trace"
  by (simp add: after_example_trace_def after_loss_detection_def after_packet_acked_def
      after_three_sent_def set_loss_detection_timer_def get_earliest_loss_time_def
      update_timer_def is_client_without_one_rtt_key_def current_pto_period_def shift_left_one_def
      set_crypto_count_def set_pto_count_def Let_def example_defs)

lemma ack_example:
  "on_ack_received first_less server_context 1500 (ack_of 2 0) ApplicationData after_three_sent =
   Inr after_example_trace"
proof -
  have tbl: "sent_packets after_three_sent ApplicationData =
     [(1, data_packet 1 1000), (2, data_packet 2 1000), (3, data_packet 3 1200)]"
    and la: "largest_acked_packet after_three_sent = (\<lambda>i. 0)"
    and rtt: "rtt_measure after_three_sent = new_rtt_measure"
    and exp: "ack_delay_exponent after_three_sent = 3"
    by (simp_all add: after_three_sent_def new_detector_def reset_def rtt_reset_def
        new_rtt_measure_def)
  have upd: "update_rtt 500 0 new_rtt_measure =
     new_rtt_measure\<lparr>latest_rtt := 500, smoothed_rtt := 500, rttvar := 250\<rparr>"
    by (simp add: update_rtt_def new_rtt_measure_def Let_def signed_divide_int_def)
  have ack: "largest_acknowledged (ack_of 2 0) = 2" "ack_delay (ack_of 2 0) = 0"
    "ecn_section (ack_of 2 0) = None"
    by (simp_all add: ack_of_def)
  have dp: "time_sent (data_packet 2 1000) = 1000" "ack_eliciting (data_packet 2 1000)"
    by (simp_all add: data_packet_def)
  show ?thesis
    unfolding on_ack_received_def
    by (simp add: Let_def tbl la rtt exp newly_acked_example ack dp upd map_find_def
        HRTIME_USECONDS_def packet_acked_example loss_detection_example timer_example)
qed

lemma run_example_trace: "run first_less example_trace new_detector = Inr after_example_trace"
proof -
  have split: "example_trace = take 3 example_trace @
     [(server_context, 1500, Handle_frame ApplicationData (ACK (ack_of 2 0)))]"
    by (simp add: example_trace_def)
  have "run first_less [(server_context, 1500, Handle_frame ApplicationData (ACK (ack_of 2 0)))]
          after_three_sent = Inr after_example_trace"
    by (simp add: handle_frame_def ack_example)
  then show ?thesis
    by (subst split) (simp only: run_append three_packets_sent sum.case)
qed


subsection \<open>Loss detection\<close>

text \<open>
  The scan in one pass is a filter and a fold over the entries up to the largest
  acknowledged number.
\<close>

lemma scan_sent_packets_eq:
  "scan_sent_packets largest lost_send_time lost_pn loss_delay t (lt, acc) =
     (fold (\<lambda>e lt. if lt = 0 then time_sent (snd e) + loss_delay
                     else min lt (time_sent (snd e) + loss_delay))
        (filter (\<lambda>e. \<not> (time_sent (snd e) < lost_send_time \<or> packet_number (snd e) < lost_pn))
           (takeWhile (\<lambda>e. fst e \<le> largest) t)) lt,
      acc @ filter (\<lambda>e. (time_sent (snd e) < lost_send_time \<or> packet_number (snd e) < lost_pn) \<and>
                          in_flight (snd e))
              (takeWhile (\<lambda>e. fst e \<le> largest) t))"
proof (induction t arbitrary: lt acc)
  case Nil
  show ?case by simp
next
  case (Cons e t)
  obtain pn unacked where e: "e = (pn, unacked)" by (cases e)
  show ?case
  proof (cases "pn > largest")
    case True
    then have nle: "\<not> pn \<le> largest" by simp
    show ?thesis unfolding e using True nle by simp
  next
    case False
    then have le: "pn \<le> largest" by simp
    show ?thesis unfolding e using False le Cons.IH by simp
  qed
qed

lemma calls_call [simp]: "calls (call c s) = calls s @ [c]"
  by (simp add: call_def)

lemma loss_time_call [simp]: "loss_time (call c s) = loss_time s"
  by (simp add: call_def)

lemma calls_retransmit:
  "calls (retransmit_lost_packet info s) = calls s @ on_frame_lost_calls info"
proof -
  have "calls (fold (\<lambda>frame_info s.
             case generated_by frame_info of
               None \<Rightarrow> s
             | Some reactor \<Rightarrow> call (On_frame_lost reactor (frame_id frame_info)) s) fs s) =
        calls s @ List.map_filter
          (\<lambda>f. map_option (\<lambda>reactor. On_frame_lost reactor (frame_id f)) (generated_by f)) fs" for fs
    by (induction fs arbitrary: s) (auto simp: List.map_filter_simps split: option.split)
  then show ?thesis by (simp add: retransmit_lost_packet_def on_frame_lost_calls_def)
qed

lemma calls_remove [simp]:
  "calls (remove_from_sent_packet_list pn sp s) = calls s"
  by (simp add: remove_from_sent_packet_list_def decrement_outstanding_counters_def Let_def
      split: option.split)

lemma loss_time_remove [simp]:
  "loss_time (remove_from_sent_packet_list pn sp s) = loss_time s"
  by (simp add: remove_from_sent_packet_list_def decrement_outstanding_counters_def Let_def
      split: option.split)

lemma loss_time_retransmit [simp]:
  "loss_time (retransmit_lost_packet info s) = loss_time s"
  unfolding retransmit_lost_packet_def
  by (rule fold_preserves [where P = "\<lambda>s'. loss_time s' = loss_time s"])
    (simp_all split: option.split)

lemma lost_fold:
  "loss_time (fold (\<lambda>lost_packet s.
       remove_from_sent_packet_list (fst lost_packet) sp
         (retransmit_lost_packet (snd lost_packet)
            (call (Trigger_PACKET_LOST (snd lost_packet)) s))) lost s) = loss_time s \<and>
   calls (fold (\<lambda>lost_packet s.
       remove_from_sent_packet_list (fst lost_packet) sp
         (retransmit_lost_packet (snd lost_packet)
            (call (Trigger_PACKET_LOST (snd lost_packet)) s))) lost s) =
     calls s @ concat (map (\<lambda>e. Trigger_PACKET_LOST (snd e) # on_frame_lost_calls (snd e)) lost)"
  by (induction lost arbitrary: s) (simp_all add: calls_retransmit)

text \<open>
  C2. Loss detection for a space uses one loss delay, the \<^emph>\<open>minimum\<close> of the time
  threshold times \<open>max(latest_rtt, smoothed_rtt)\<close> and \<open>k_granularity\<close>. Of the entries up
  to the largest acknowledged number, those sent before \<open>now\<close> minus this delay, or
  numbered below the packet-number cutoff, are lost, and the ones in flight are reported;
  the loss time of the space becomes the earliest send time of the others plus this delay.
\<close>

theorem loss_delay_is_min_with_granularity:
  "(let loss_delay = min (k_time_threshold_times s
                            (max (latest_rtt (rtt_measure s)) (smoothed_rtt (rtt_measure s))))
                         (k_granularity (rtt_measure s));
        candidates = takeWhile (\<lambda>e. fst e \<le> largest_acked_packet s sp) (sent_packets s sp);
        is_lost = (\<lambda>e. time_sent (snd e) < now - loss_delay \<or>
                        packet_number (snd e) < largest_acked_packet s sp - ucast (k_packet_threshold s));
        lost = filter (\<lambda>e. is_lost e \<and> in_flight (snd e)) candidates;
        survivors = filter (\<lambda>e. \<not> is_lost e) candidates
    in loss_time (detect_lost_packets sp now s) sp =
         fold (\<lambda>e lt. if lt = 0 then time_sent (snd e) + loss_delay
                       else min lt (time_sent (snd e) + loss_delay)) survivors 0 \<and>
       calls (detect_lost_packets sp now s) =
         calls s @
         (if lost = [] then []
          else CC_on_packets_lost lost #
               concat (map (\<lambda>e. Trigger_PACKET_LOST (snd e) # on_frame_lost_calls (snd e)) lost)))"
  unfolding detect_lost_packets_def Let_def
  by (simp add: scan_sent_packets_eq lost_fold)

text \<open>
  C6. The cutoff \<open>largest_acked_packet - packet_threshold\<close> wraps when the largest
  acknowledged number is below the threshold. On the example trace the threshold is 3 and
  the frame acknowledges packet 2: the cutoff is \<open>2 ^ 64 - 1\<close>, and packet 1, sent together
  with packet 2 and 500 ns before the frame arrived, is reported lost at once.
\<close>

theorem packet_threshold_subtraction_wraps:
  "run first_less example_trace new_detector = Inr after_example_trace \<and>
   k_packet_threshold after_example_trace = 3 \<and>
   largest_acked_packet after_example_trace ApplicationData = 2 \<and>
   largest_acked_packet after_example_trace ApplicationData -
     ucast (k_packet_threshold after_example_trace) = 18446744073709551615 \<and>
   calls after_example_trace =
     [CC_on_packet_sent 1200, CC_on_packet_sent 1200, CC_on_packet_sent 1200,
      CC_on_packet_acked (data_packet 2 1000), On_frame_acked 0 2,
      CC_on_packets_lost [(1, data_packet 1 1000)],
      Trigger_PACKET_LOST (data_packet 1 1000), On_frame_lost 0 1]"
  by (simp add: run_example_trace) (simp add: after_example_trace_def example_defs)

theorem packet_threshold_subtraction_wraps_witness:
  "map_sum id calls (run first_less example_trace new_detector) =
     Inr [CC_on_packet_sent 1200, CC_on_packet_sent 1200, CC_on_packet_sent 1200,
          CC_on_packet_acked (data_packet 2 1000), On_frame_acked 0 2,
          CC_on_packets_lost [(1, data_packet 1 1000)],
          Trigger_PACKET_LOST (data_packet 1 1000), On_frame_lost 0 1]"
  using packet_threshold_subtraction_wraps by simp

text \<open>The invariant of C7 on the example trace: one ack-eliciting descriptor is left.\<close>

theorem outstanding_counters_witness:
  "strictly_increasing (\<lambda>sp. None) example_trace \<and>
   run first_less example_trace new_detector = Inr after_example_trace \<and>
   unat (ack_eliciting_outstanding after_example_trace) =
     tracked ack_eliciting after_example_trace mod 2 ^ 32 \<and>
   unat (crypto_outstanding after_example_trace) =
     tracked is_crypto_packet after_example_trace mod 2 ^ 32 \<and>
   tracked ack_eliciting after_example_trace = 1"
proof -
  have inc: "strictly_increasing (\<lambda>sp. None) example_trace"
    by (simp add: example_trace_def data_packet_def word_less_nat_alt)
  have r: "run first_less example_trace
             (reset \<lparr>k_packet_threshold = 3,
                k_time_threshold_times = (\<lambda>t. (9 * t) sdiv 8),
                ack_delay_exponent = 3,
                loss_detection_alarm_at = 0,
                loss_detection_timer = False,
                ack_eliciting_outstanding = 0,
                crypto_outstanding = 0,
                time_of_last_sent_ack_eliciting_packet = 0,
                time_of_last_sent_crypto_packet = 0,
                largest_acked_packet = (\<lambda>i. 0),
                loss_time = (\<lambda>i. 0),
                sent_packets = (\<lambda>i. []),
                rtt_measure = new_rtt_measure,
                calls = []\<rparr>) = Inr after_example_trace"
    using run_example_trace unfolding new_detector_def .
  have t: "tracked ack_eliciting after_example_trace = 1"
    by (simp add: tracked_def after_example_trace_def data_packet_def)
  show ?thesis
    using inc run_example_trace t outstanding_counters_count_tracked_descriptors [OF inc r]
    by simp
qed

text \<open>C8, as amended, on the example trace.\<close>

theorem largest_acked_packet_monotone_witness:
  "run first_less example_trace new_detector = Inr after_example_trace \<and>
   list_all (\<lambda>i. snd (snd i) \<noteq> Reset) example_trace \<and>
   largest_acked_packet new_detector ApplicationData
     \<le> largest_acked_packet after_example_trace ApplicationData \<and>
   largest_acked_packet (reset after_example_trace) ApplicationData = 0"
proof -
  have n: "list_all (\<lambda>i. snd (snd i) \<noteq> Reset) example_trace"
    by (simp add: example_trace_def)
  show ?thesis
    using run_example_trace n
      largest_acked_packet_monotone_without_reset [OF run_example_trace n, of ApplicationData]
    by simp
qed

text \<open>
  C8 as stated fails: after the example trace the largest acknowledged number of the
  application space is 2, and a \<^verbatim>\<open>reset\<close> lowers it to 0.
\<close>

theorem reset_lowers_largest_acked_packet:
  "map_sum id (\<lambda>s. largest_acked_packet s ApplicationData)
     (run first_less example_trace new_detector) = Inr 2 \<and>
   map_sum id (\<lambda>s. largest_acked_packet s ApplicationData)
     (run first_less (example_trace @ [(server_context, 2000, Reset)]) new_detector) = Inr 0"
  by (simp add: run_append run_example_trace) (simp add: after_example_trace_def reset_def)

subsection \<open>An ACK frame with overlapping ranges\<close>









text \<open>
  C2 on a path with an RTT of 30 ms: the product with 9/8 is 33.75 ms, the granularity is
  1 ms, and the delay is 1 ms. At 1001100 ns packets 1 and 2, sent at 1000 ns, are lost,
  and packet 3, sent at 1200 ns, gets the loss time 1200 ns + 1 ms.
\<close>

theorem loss_delay_witness:
  "loss_time (detect_lost_packets ApplicationData 1001100 on_slow_path) ApplicationData = 1001200 \<and>
   calls (detect_lost_packets ApplicationData 1001100 on_slow_path) =
     calls on_slow_path @
       [CC_on_packets_lost [(1, data_packet 1 1000), (2, data_packet 2 1000)],
        Trigger_PACKET_LOST (data_packet 1 1000), On_frame_lost 0 1,
        Trigger_PACKET_LOST (data_packet 2 1000), On_frame_lost 0 2]"
  using loss_delay_is_min_with_granularity [of on_slow_path ApplicationData 1001100]
  by (simp add: on_slow_path_def after_three_sent_def Let_def data_packet_def
      on_frame_lost_calls_def List.map_filter_simps signed_divide_int_def word_le_nat_alt
      word_less_nat_alt example_defs)

subsection \<open>A tick after the alarm was cleared\<close>

lemma one_sent_state:
  "on_packet_sent server_context (data_packet 1 1000) True new_detector = after_one_sent"
  unfolding after_one_sent_def by (rule one_sent)

lemma only_packet_acked:
  "on_packet_acked (data_packet 1 1000)
     (after_one_sent\<lparr>largest_acked_packet := (\<lambda>i. 0)(ApplicationData := 1),
        rtt_measure := new_rtt_measure\<lparr>latest_rtt := 500, smoothed_rtt := 500, rttvar := 250\<rparr>\<rparr>) =
   after_one_acked"
  apply (simp add: after_one_sent_def after_one_acked_def map_find_def map_erase_def
      on_packet_acked_def call_def remove_from_sent_packet_list_def
      decrement_outstanding_counters_def Let_def data_packet_def new_detector_def reset_def)
  apply (simp add: fun_upd_idem)
  done

lemma nothing_lost: "detect_lost_packets ApplicationData 1500 after_one_acked = after_one_acked"
  unfolding detect_lost_packets_def
  apply (simp add: after_one_acked_def new_detector_def reset_def Let_def)
  apply (simp add: fun_upd_idem)
  done

lemma timer_disarmed:
  "set_loss_detection_timer server_context
     (after_one_acked\<lparr>rtt_measure :=
        set_pto_count 0 (set_crypto_count 0 (rtt_measure after_one_acked))\<rparr>) =
   after_idle_trace"
  by (simp add: after_idle_trace_def after_one_acked_def set_loss_detection_timer_def
      get_earliest_loss_time_def is_client_without_one_rtt_key_def set_crypto_count_def
      set_pto_count_def Let_def example_defs)

lemma run_idle_trace: "run first_less idle_trace new_detector = Inr after_idle_trace"
proof -
  have tbl: "sent_packets after_one_sent ApplicationData = [(1, data_packet 1 1000)]"
    and la: "largest_acked_packet after_one_sent = (\<lambda>i. 0)"
    and rtt: "rtt_measure after_one_sent = new_rtt_measure"
    and exp: "ack_delay_exponent after_one_sent = 3"
    by (simp_all add: after_one_sent_def new_detector_def reset_def rtt_reset_def
        new_rtt_measure_def)
  have newly: "determine_newly_acked_packets first_less (ack_of 1 0) [(1, data_packet 1 1000)] =
     [(1, data_packet 1 1000)]"
    by (simp add: determine_newly_acked_packets_def range_contains_def ack_of_def Let_def)
  have upd: "update_rtt 500 0 new_rtt_measure =
     new_rtt_measure\<lparr>latest_rtt := 500, smoothed_rtt := 500, rttvar := 250\<rparr>"
    by (simp add: update_rtt_def new_rtt_measure_def Let_def signed_divide_int_def)
  have ack: "largest_acknowledged (ack_of 1 0) = 1" "ack_delay (ack_of 1 0) = 0"
    "ecn_section (ack_of 1 0) = None"
    by (simp_all add: ack_of_def)
  have dp: "time_sent (data_packet 1 1000) = 1000" "ack_eliciting (data_packet 1 1000)"
    by (simp_all add: data_packet_def)
  have "on_ack_received first_less server_context 1500 (ack_of 1 0) ApplicationData
          after_one_sent = Inr after_idle_trace"
    unfolding on_ack_received_def
    by (simp add: Let_def tbl la rtt exp newly ack dp upd map_find_def HRTIME_USECONDS_def
        only_packet_acked nothing_lost timer_disarmed)
  then show ?thesis by (simp add: idle_trace_def handle_frame_def one_sent_state)
qed

text \<open>
  C5 as stated fails. At the end of the shorter trace nothing is tracked, the timer is
  cancelled and the alarm is cleared (0). A tick delivered then, at 2000 ns, passes the
  handler's guard and runs the timeout handler, which requests two 1-RTT pings and counts
  a probe timeout.
\<close>

theorem tick_with_cleared_alarm_runs_timeout:
  "run first_less idle_trace new_detector = Inr after_idle_trace \<and>
   loss_detection_alarm_at after_idle_trace = 0 \<and>
   \<not> loss_detection_timer after_idle_trace \<and>
   sent_packets after_idle_trace = (\<lambda>i. []) \<and>
   event_handler server_context 2000 EVENT_INTERVAL after_idle_trace =
     after_idle_trace
       \<lparr>rtt_measure := new_rtt_measure\<lparr>latest_rtt := 500, smoothed_rtt := 500, rttvar := 250,
                                     pto_count := 1\<rparr>,
        calls := calls after_idle_trace @
          [Pinger_request LEVEL_ONE_RTT, CC_add_extra_credit,
           Pinger_request LEVEL_ONE_RTT, CC_add_extra_credit]\<rparr>"
  apply (simp add: run_idle_trace)
  apply (simp add: after_idle_trace_def event_handler_def on_loss_detection_timeout_def
      get_earliest_loss_time_def is_client_without_one_rtt_key_def send_one_or_two_packet_def
      send_packet_def call_def set_pto_count_def set_loss_detection_timer_def Let_def
      example_defs)
  done

subsection \<open>A packet number sent twice\<close>

text \<open>
  The counters rely on the caller adding each packet number once to a space. When the
  same number is added again, the second descriptor is not inserted, since the map keeps
  the stored one, but the counter is incremented for the stored one: after packet 1 was
  sent twice, one descriptor is tracked and \<open>ack_eliciting_outstanding\<close> is 2.
\<close>

lemma repeated_packet_number_miscounts:
  "map_sum id (\<lambda>s. (unat (ack_eliciting_outstanding s), tracked ack_eliciting s))
     (run first_less
        [(server_context, 1000, On_packet_sent (data_packet 1 1000) True),
         (server_context, 1200, On_packet_sent (data_packet 1 1200) True)] new_detector) =
   Inr (2, 1)"
proof -
  have "on_packet_sent server_context (data_packet 1 1200) True after_one_sent =
     after_one_sent\<lparr>loss_detection_alarm_at := 25001200, ack_eliciting_outstanding := 2,
        time_of_last_sent_ack_eliciting_packet := 1200,
        calls := [CC_on_packet_sent 1200, CC_on_packet_sent 1200]\<rparr>"
    apply (simp add: after_one_sent_def on_packet_sent_def add_to_sent_packet_list_def
        map_find_def call_def set_loss_detection_timer_def get_earliest_loss_time_def
        update_timer_def is_client_without_one_rtt_key_def current_pto_period_def shift_left_one_def Let_def
        example_defs)
    done
  then show ?thesis
    by (simp add: one_sent_state) (simp add: after_one_sent_def tracked_def data_packet_def)
qed

end
